theory Spec2Isabelle
  imports Complex_Main "HOL-Library.AList" "HOL-Library.Multiset"
begin

section \<open>Common conventions\<close>

text \<open>
  Python integers are modelled as \<open>int\<close> (or \<open>nat\<close> for lengths and counts, which are
  never negative), Python floats as \<open>real\<close>: the arithmetic is exact, so a statement
  "within floating-point tolerance" of the specification becomes an exact equation.
  A Python \<open>dict\<close> is an association list with distinct keys in insertion order:
  lookup is \<open>map_of\<close>, assignment \<open>d[k] = v\<close> is \<open>AList.update k v d\<close> (the value is
  replaced in place when the key exists and appended otherwise, as in Python).
  Every exception the modelled code can raise is a value of \<open>error\<close>.
\<close>

datatype error = ZeroDivisionError | KeyError | ValueError | TypeError | NanResult

text \<open>
  \<open>NanResult\<close> is not an exception: it stands for a float \<open>nan\<close> that numpy returns (with
  a warning) for the mean of an empty list, which no real number represents.
\<close>

type_synonym ('k, 'v) dict = "('k \<times> 'v) list"

section \<open>Evaluator (evaluate.py)\<close>

record prediction_eval =
  index :: nat
  predicted_numbers :: "int list"
  confidence_score :: real
  hit_count :: nat
  hit_numbers :: "int set"
  missed_numbers :: "int set"
  extra_numbers :: "int set"

record summary_rec =
  best_hit_count :: nat
  best_prediction_index :: int
  average_hit_count :: real
  hit_distribution :: "(nat, nat) dict"

record evaluation =
  draw_date :: string
  actual_result :: "int list"
  total_predictions :: nat
  predictions :: "prediction_eval list"
  summary :: summary_rec

text \<open>
  The evaluator object: \<open>results\<close> is the in-memory dictionary keyed by draw date,
  \<open>evaluation_file\<close> the content last written by \<open>save_evaluation_results\<close>
  (\<open>None\<close> while nothing has been written).
\<close>

record evaluator =
  results :: "string \<rightharpoonup> evaluation"
  evaluation_file :: "(string \<rightharpoonup> evaluation) option"

text \<open>The local variables of the loop of \<open>evaluate_predictions\<close>.\<close>

record eval_acc =
  acc_predictions :: "prediction_eval list"
  acc_distribution :: "(nat, nat) dict"
  total_hits :: nat
  best_hits :: nat
  best_index :: int

definition hits_of :: "int list \<Rightarrow> int list \<Rightarrow> nat" where
  \<comment> \<open>\<open>len(set(sorted_numbers) & set(actual_sorted))\<close>\<close>
  "hits_of sorted_numbers actual_sorted = card (set sorted_numbers \<inter> set actual_sorted)"

definition initial_distribution :: "(nat, nat) dict" where
  "initial_distribution = [(0, 0), (1, 0), (2, 0), (3, 0), (4, 0), (5, 0), (6, 0)]"

definition initial_acc :: eval_acc where
  "initial_acc = \<lparr>acc_predictions = [], acc_distribution = initial_distribution,
                  total_hits = 0, best_hits = 0, best_index = - 1\<rparr>"

text \<open>
  One iteration of \<open>for i, (numbers, score) in enumerate(predictions)\<close>. The statement
  \<open>hit_distribution[hits] += 1\<close> raises \<open>KeyError\<close> when \<open>hits\<close> is not one of the
  keys 0..6.
\<close>

definition eval_step :: "int list \<Rightarrow> nat \<Rightarrow> int list \<times> real \<Rightarrow> eval_acc \<Rightarrow> error + eval_acc" where
  "eval_step actual_sorted i p a =
     (let sorted_numbers = sort (fst p);
          hits = hits_of sorted_numbers actual_sorted;
          prediction_eval = \<lparr>index = i + 1,
                             predicted_numbers = sorted_numbers,
                             confidence_score = snd p,
                             hit_count = hits,
                             hit_numbers = set sorted_numbers \<inter> set actual_sorted,
                             missed_numbers = set actual_sorted - set sorted_numbers,
                             extra_numbers = set sorted_numbers - set actual_sorted\<rparr>
      in case map_of (acc_distribution a) hits of
           None \<Rightarrow> Inl KeyError
         | Some c \<Rightarrow>
             Inr \<lparr>acc_predictions = acc_predictions a @ [prediction_eval],
                  acc_distribution = AList.update hits (c + 1) (acc_distribution a),
                  total_hits = total_hits a + hits,
                  best_hits = (if hits > best_hits a then hits else best_hits a),
                  best_index = (if hits > best_hits a then int i else best_index a)\<rparr>)"

fun eval_loop :: "int list \<Rightarrow> nat \<Rightarrow> (int list \<times> real) list \<Rightarrow> eval_acc \<Rightarrow> error + eval_acc" where
  "eval_loop actual_sorted i [] a = Inr a"
| "eval_loop actual_sorted i (p # ps) a =
     (case eval_step actual_sorted i p a of
        Inl e \<Rightarrow> Inl e
      | Inr a' \<Rightarrow> eval_loop actual_sorted (i + 1) ps a')"

definition save_evaluation_results :: "evaluator \<Rightarrow> evaluator" where
  "save_evaluation_results ev = ev\<lparr>evaluation_file := Some (results ev)\<rparr>"

text \<open>
  \<open>total_hits / len(predictions)\<close> raises \<open>ZeroDivisionError\<close> for an empty batch; it is
  evaluated before the result is stored, so a failing call leaves the evaluator as it was.
\<close>

definition evaluate_predictions ::
  "evaluator \<Rightarrow> string \<Rightarrow> (int list \<times> real) list \<Rightarrow> int list \<Rightarrow> error + (evaluation \<times> evaluator)" where
  "evaluate_predictions ev date preds actual =
     (let actual_sorted = sort actual in
      case eval_loop actual_sorted 0 preds initial_acc of
        Inl e \<Rightarrow> Inl e
      | Inr a \<Rightarrow>
          if length preds = 0 then Inl ZeroDivisionError
          else
            let evaluation = \<lparr>draw_date = date,
                              actual_result = actual_sorted,
                              total_predictions = length preds,
                              predictions = acc_predictions a,
                              summary = \<lparr>best_hit_count = best_hits a,
                                         best_prediction_index = best_index a + 1,
                                         average_hit_count = real (total_hits a) / real (length preds),
                                         hit_distribution = acc_distribution a\<rparr>\<rparr>
            in Inr (evaluation, save_evaluation_results (ev\<lparr>results := (results ev)(date \<mapsto> evaluation)\<rparr>)))"


text \<open>
  What a caller reads off the returned dictionary: the hit counts of the annotated
  predictions in order, and the summary's \<open>best_hit_count\<close>, \<open>average_hit_count\<close> and
  \<open>best_prediction_index\<close>.
\<close>

definition summary_view :: "error + evaluation \<times> evaluator \<Rightarrow> error + nat list \<times> nat \<times> real \<times> int" where
  "summary_view r =
     map_sum id (\<lambda>(e, _). (map hit_count (predictions e), best_hit_count (summary e),
                             average_hit_count (summary e), best_prediction_index (summary e))) r"

text \<open>A freshly constructed evaluator with no stored results.\<close>

definition evaluator0 :: evaluator where
  "evaluator0 = \<lparr>results = Map.empty, evaluation_file = None\<rparr>"

text \<open>Loop invariant of \<open>evaluate_predictions\<close>: the histogram keeps its seven keys.\<close>

definition dist_ok :: "eval_acc \<Rightarrow> bool" where
  "dist_ok a \<longleftrightarrow> dom (map_of (acc_distribution a)) = {0..6}"

text \<open>Proof-side notion: the best hit count and its position as the loop tracks them, on the
  list of hit counts alone.\<close>

fun scan_best :: "nat \<Rightarrow> nat list \<Rightarrow> nat \<times> int \<Rightarrow> nat \<times> int" where
  "scan_best i [] b = b"
| "scan_best i (h # hs) b = scan_best (i + 1) hs (if h > fst b then (h, int i) else b)"

section \<open>Feature extractor (features.py)\<close>

text \<open>
  One row of the draw table: the six columns \<open>Number1\<close> .. \<open>Number6\<close>. The table
  \<open>self.data\<close> is the list of rows in file order, with row labels 0, 1, 2, ...;
  \<open>self.all_numbers\<close> is the flattened table, row by row.
\<close>

record draw =
  Number1 :: int
  Number2 :: int
  Number3 :: int
  Number4 :: int
  Number5 :: int
  Number6 :: int

definition row_values :: "draw \<Rightarrow> int list" where
  "row_values row = [Number1 row, Number2 row, Number3 row, Number4 row, Number5 row, Number6 row]"


subsection \<open>get_missing_intervals\<close>

text \<open>
  The inner loop \<open>for i, row in self.data.iterrows()\<close>: it starts at row 0, stores the label
  of the first row that contains \<open>num\<close> in \<open>last_appearance\<close> and leaves the loop at once
  (\<open>break\<close>); \<open>last_appearance\<close> keeps its initial value \<open>-1\<close> when no row contains it.
\<close>

fun last_appearance_loop :: "int \<Rightarrow> nat \<Rightarrow> draw list \<Rightarrow> int" where
  "last_appearance_loop num i [] = - 1"
| "last_appearance_loop num i (row # rows) =
     (if num \<in> set (row_values row) then int i else last_appearance_loop num (i + 1) rows)"

definition missing_interval :: "draw list \<Rightarrow> int \<Rightarrow> int" where
  "missing_interval data num =
     (let last_appearance = last_appearance_loop num 0 data
      in if last_appearance = - 1 then int (length data)
         else int (length data) - 1 - last_appearance)"

definition get_missing_intervals :: "draw list \<Rightarrow> (int, int) dict" where
  "get_missing_intervals data = map (\<lambda>num. (num, missing_interval data num)) [1..49]"

subsection \<open>get_consecutive_pairs_frequency\<close>


definition consecutive_in_row :: "int list \<Rightarrow> nat" where
  \<comment> \<open>\<open>for i in range(len(numbers)-1): if numbers[i+1] - numbers[i] == 1\<close>\<close>
  "consecutive_in_row numbers =
     length (filter (\<lambda>i. numbers ! (i + 1) - numbers ! i = 1) [0 ..< length numbers - 1])"



subsection \<open>get_odd_even_ratio\<close>


subsection \<open>Concrete draws\<close>

text \<open>A draw that contains the number 7, and the draw 1, 2, 3, 4, 5, 6.\<close>

definition draw7 :: draw where
  "draw7 = \<lparr>Number1 = 7, Number2 = 8, Number3 = 9, Number4 = 10, Number5 = 11, Number6 = 12\<rparr>"

definition draw1 :: draw where
  "draw1 = \<lparr>Number1 = 1, Number2 = 2, Number3 = 3, Number4 = 4, Number5 = 5, Number6 = 6\<rparr>"

section \<open>Weight learner (learn.py)\<close>

type_synonym weights = "(string, real) dict"

text \<open>
  The feature dictionary as far as the learner reads it: for a feature name, the
  per-number values (\<open>features.get(name, {}).get(num, 0)\<close>).
\<close>

type_synonym features = "string \<rightharpoonup> (int \<rightharpoonup> real)"

definition feature_get :: "features \<Rightarrow> string \<Rightarrow> int \<Rightarrow> real" where
  "feature_get features name num =
     (case features name of
        None \<Rightarrow> 0
      | Some d \<Rightarrow> (case d num of None \<Rightarrow> 0 | Some v \<Rightarrow> v))"

text \<open>
  What the learner prints, one constructor per \<open>print\<close> (group), carrying the values
  shown rather than the formatted text.
\<close>

datatype message =
    MsgLearningStart string
  | MsgEvaluationNotFound
  | MsgAdjustHeader
  | MsgWeightChange string real real real
  | MsgAdjustDone
  | MsgSummary nat real "(string \<times> real) list"

record learner =
  weights_file :: "weights option"
  learning_rate :: real
  weights :: weights
  evaluator :: evaluator
  printed :: "message list"

definition default_weights :: weights where
  "default_weights =
     [(''total_appearances'', 0.15), (''recent_appearances'', 0.20),
      (''missing_intervals'', 0.15), (''hot_cold'', 0.10), (''periodicity'', 0.10),
      (''regression_trend'', 0.08), (''moving_average'', 0.08),
      (''attraction_effect'', 0.05), (''distribution'', 0.05),
      (''adjacent_correlation'', 0.04)]"


subsection \<open>analyze_single_feature\<close>

record feature_performance =
  actual_average :: real
  predicted_average :: real
  effectiveness :: real
  contribution_score :: real

text \<open>
  The \<open>if\<close>/\<open>elif\<close> chain executed for one number: only three feature names store a
  value, every other name leaves the dictionary as it is.
\<close>

definition store_feature_value :: "string \<Rightarrow> features \<Rightarrow> int \<Rightarrow> (int, real) dict \<Rightarrow> (int, real) dict" where
  "store_feature_value feature_name features num d =
     (if feature_name = ''total_appearances''
        then AList.update num (feature_get features ''total_appearances'' num) d
      else if feature_name = ''recent_appearances''
        then AList.update num (feature_get features ''recent_appearances'' num) d
      else if feature_name = ''missing_intervals''
        then AList.update num (feature_get features ''missing_intervals'' num) d
      else d)"

definition actual_feature_values :: "string \<Rightarrow> features \<Rightarrow> int list \<Rightarrow> (int, real) dict" where
  "actual_feature_values feature_name features actual =
     fold (store_feature_value feature_name features) actual []"

definition predicted_feature_values ::
  "string \<Rightarrow> features \<Rightarrow> prediction_eval list \<Rightarrow> (int, real) dict" where
  "predicted_feature_values feature_name features preds =
     fold (\<lambda>pred d. if hit_count pred \<ge> 2
                      then fold (store_feature_value feature_name features) (predicted_numbers pred) d
                      else d) preds []"

definition mean_or_zero :: "(int, real) dict \<Rightarrow> real" where
  \<comment> \<open>\<open>statistics.mean(list(d.values())) if d else 0\<close>\<close>
  "mean_or_zero d = (if d = [] then 0 else sum_list (map snd d) / real (length d))"

definition analyze_single_feature ::
  "string \<Rightarrow> features \<Rightarrow> int list \<Rightarrow> prediction_eval list \<Rightarrow> feature_performance" where
  "analyze_single_feature feature_name features actual preds =
     (let actual_avg = mean_or_zero (actual_feature_values feature_name features actual);
          predicted_avg = mean_or_zero (predicted_feature_values feature_name features preds);
          effectiveness = 1 - \<bar>actual_avg - predicted_avg\<bar> / max (max actual_avg predicted_avg) 1
      in \<lparr>actual_average = actual_avg,
          predicted_average = predicted_avg,
          effectiveness = max 0 effectiveness,
          contribution_score = 0\<rparr>)"


subsection \<open>calculate_weight_adjustments\<close>



subsection \<open>apply_weight_adjustments\<close>

text \<open>
  The first loop: \<open>self.weights[feature_name]\<close> raises \<open>KeyError\<close> for a name that is not a
  weight; the new weight is clamped to [0.01, 0.5]; a change is printed when the
  adjustment exceeds 0.001 in absolute value.
\<close>

fun adjust_loop :: "(string \<times> real) list \<Rightarrow> weights \<times> message list \<Rightarrow> error + weights \<times> message list" where
  "adjust_loop [] s = Inr s"
| "adjust_loop ((feature_name, adjustment) # rest) (w, out) =
     (case map_of w feature_name of
        None \<Rightarrow> Inl KeyError
      | Some old_weight \<Rightarrow>
          let new_weight = max 0.01 (min 0.5 (old_weight + adjustment))
          in adjust_loop rest
               (AList.update feature_name new_weight w,
                if \<bar>adjustment\<bar> > 0.001
                then out @ [MsgWeightChange feature_name old_weight new_weight adjustment]
                else out))"

text \<open>
  The second loop divides every weight by the total; with a total of 0 the first division
  raises \<open>ZeroDivisionError\<close> (there is no division when there are no weights).
\<close>

definition normalize_weights :: "weights \<Rightarrow> error + weights" where
  "normalize_weights w =
     (let total_weight = sum_list (map snd w)
      in if w \<noteq> [] \<and> total_weight = 0 then Inl ZeroDivisionError
         else Inr (map (\<lambda>(feature_name, v). (feature_name, v / total_weight)) w))"

definition apply_weight_adjustments :: "learner \<Rightarrow> (string, real) dict \<Rightarrow> error + learner" where
  "apply_weight_adjustments l adjustments =
     (case adjust_loop adjustments (weights l, printed l @ [MsgAdjustHeader]) of
        Inl e \<Rightarrow> Inl e
      | Inr (w, out) \<Rightarrow>
          (case normalize_weights w of
             Inl e \<Rightarrow> Inl e
           | Inr w' \<Rightarrow> Inr (l\<lparr>weights := w', printed := out @ [MsgAdjustDone]\<rparr>)))"

subsection \<open>learn_from_evaluation\<close>



subsection \<open>Specification-side notions for the learner\<close>

text \<open>
  The average of \<open>f\<close> over a finite group of numbers, taken as 0 for an empty group, and
  the group of numbers that appear in a prediction with at least two hits.
\<close>

definition group_mean :: "(int \<Rightarrow> real) \<Rightarrow> int set \<Rightarrow> real" where
  "group_mean f S = (if S = {} then 0 else (\<Sum>n\<in>S. f n) / real (card S))"

definition well_hit_numbers :: "prediction_eval list \<Rightarrow> int set" where
  "well_hit_numbers preds = \<Union> (set (map (\<lambda>pred. set (predicted_numbers pred)) (filter (\<lambda>pred. hit_count pred \<ge> 2) preds)))"

definition clamp_weight :: "real \<Rightarrow> real" where
  "clamp_weight x = max 0.01 (min 0.5 x)"

text \<open>A learner as constructed with the default weights and nothing stored or printed.\<close>

definition learner0 :: learner where
  "learner0 = \<lparr>weights_file = None, learning_rate = 0.1, weights = default_weights,
                evaluator = evaluator0, printed = []\<rparr>"

text \<open>Proof-side notions: a dictionary whose values are given by a function of the key, and
  the feature names for which \<open>analyze_single_feature\<close> stores values.\<close>

definition tabulates :: "('k \<Rightarrow> 'v) \<Rightarrow> ('k, 'v) dict \<Rightarrow> bool" where
  "tabulates f d \<longleftrightarrow> distinct (map fst d) \<and> (\<forall>(k, v) \<in> set d. v = f k)"

definition handled :: "string \<Rightarrow> bool" where
  "handled feature_name \<longleftrightarrow>
     feature_name = ''total_appearances'' \<or> feature_name = ''recent_appearances''
     \<or> feature_name = ''missing_intervals''"

text \<open>The weights returned by a call, for stating results without unpacking the learner.\<close>

definition weights_view :: "error + learner \<Rightarrow> error + weights" where
  "weights_view r = map_sum id weights r"

text \<open>
  Concrete inputs for the scenarios: recent appearance counts (number 1 twice, number 2
  once, number 7 three times, every other number absent), a prediction with two hits
  against the outcome 1..6 and one with none.
\<close>

definition features1 :: features where
  "features1 = map_of [(''recent_appearances'', map_of [(1, 2), (2, 1), (7, 3)])]"

definition pred_two_hits :: prediction_eval where
  "pred_two_hits = \<lparr>index = 1, predicted_numbers = [1, 2, 7, 8, 9, 10], confidence_score = 50,
       hit_count = 2, hit_numbers = {1, 2}, missed_numbers = {3, 4, 5, 6},
       extra_numbers = {7, 8, 9, 10}\<rparr>"

definition pred_no_hits :: prediction_eval where
  "pred_no_hits = \<lparr>index = 1, predicted_numbers = [7, 8, 9, 10, 11, 12], confidence_score = 50,
       hit_count = 0, hit_numbers = {}, missed_numbers = {1, 2, 3, 4, 5, 6},
       extra_numbers = {7, 8, 9, 10, 11, 12}\<rparr>"

text \<open>
  A learner whose ten weights sum to 1 (0.37 for \<open>recent_appearances\<close>, 0.07 for each
  other feature), and the adjustments \<open>calculate_weight_adjustments\<close> yields at learning
  rate 0.1 and overall performance at most 0.5 when \<open>total_appearances\<close> and
  \<open>missing_intervals\<close> have effectiveness 0 and every other feature effectiveness 1.
\<close>

definition learner1 :: learner where
  "learner1 = \<lparr>weights_file = None, learning_rate = 0.1,
       weights = [(''total_appearances'', 0.07), (''recent_appearances'', 0.37),
                  (''missing_intervals'', 0.07), (''hot_cold'', 0.07), (''periodicity'', 0.07),
                  (''regression_trend'', 0.07), (''moving_average'', 0.07),
                  (''attraction_effect'', 0.07), (''distribution'', 0.07),
                  (''adjacent_correlation'', 0.07)],
       evaluator = evaluator0, printed = []\<rparr>"

definition adjustments1 :: "(string, real) dict" where
  "adjustments1 = [(''total_appearances'', - 0.1), (''recent_appearances'', - 0.05),
                  (''missing_intervals'', - 0.1), (''hot_cold'', - 0.05), (''periodicity'', - 0.05),
                  (''regression_trend'', - 0.05), (''moving_average'', - 0.05),
                  (''attraction_effect'', - 0.05), (''distribution'', - 0.05),
                  (''adjacent_correlation'', - 0.05)]"

text \<open>
  The adjustments \<open>calculate_weight_adjustments\<close> yields at learning rate 0.1 and overall
  performance above 0.5 when the three count features have effectiveness 0.8 and every
  other feature effectiveness 1.
\<close>

definition adjustments0 :: "(string, real) dict" where
  "adjustments0 = [(''total_appearances'', 0.08), (''recent_appearances'', 0.08),
       (''missing_intervals'', 0.08), (''hot_cold'', 0.1), (''periodicity'', 0.1),
       (''regression_trend'', 0.1), (''moving_average'', 0.1),
       (''attraction_effect'', 0.1), (''distribution'', 0.1),
       (''adjacent_correlation'', 0.1)]"

text \<open>Proof-side notion: the weight of a key after the first loop of
  \<open>apply_weight_adjustments\<close>.\<close>

definition adjusted :: "(string, real) dict \<Rightarrow> string \<Rightarrow> real \<Rightarrow> real" where
  "adjusted adj k v = (case map_of adj k of None \<Rightarrow> v | Some a \<Rightarrow> clamp_weight (v + a))"

section \<open>Scoring engine and combination generator (predict_adaptive.py)\<close>

subsection \<open>The feature dictionary as the predictor reads it\<close>

datatype trend_direction = Up | Down | Stable

text \<open>\<open>avg_interval\<close> is \<open>None\<close> for the sentinel \<open>float('inf')\<close>.\<close>

record periodicity_entry =
  avg_interval :: "real option"
  std_interval :: real

record trend_entry =
  slope :: real
  r_squared :: real

record hot_cold_lists =
  hot :: "int list"
  cold :: "int list"

record feature_set =
  total_appearances :: "int \<rightharpoonup> nat"
  recent_appearances :: "int \<rightharpoonup> nat"
  missing_intervals :: "int \<rightharpoonup> int"
  hot_cold :: hot_cold_lists
  periodicity :: "int \<rightharpoonup> periodicity_entry"
  regression_trend :: "int \<rightharpoonup> trend_entry"
  moving_average :: "int \<rightharpoonup> trend_direction"
  attraction_effect :: "int \<rightharpoonup> nat"
  distribution :: "string \<rightharpoonup> real"
  adjacent_correlation :: "int \<rightharpoonup> real"

text \<open>
  The predictor object: the draw table of its feature extractor, the feature
  dictionary computed from it at construction, and the weights loaded from the weights
  file.
\<close>

record predictor =
  features_data :: "draw list"
  all_features :: feature_set
  predictor_weights :: weights

definition get_or :: "('k \<rightharpoonup> 'v) \<Rightarrow> 'k \<Rightarrow> 'v \<Rightarrow> 'v" where
  \<comment> \<open>\<open>d.get(k, default)\<close>\<close>
  "get_or d k dflt = (case d k of None \<Rightarrow> dflt | Some v \<Rightarrow> v)"

subsection \<open>calculate_number_score\<close>

definition expected_appearances :: "predictor \<Rightarrow> real" where
  "expected_appearances p = real (length (features_data p)) * 6 / 49"

definition appearance_score :: "predictor \<Rightarrow> int \<Rightarrow> real" where
  "appearance_score p number =
     1 - \<bar>real (get_or (total_appearances (all_features p)) number 0) - expected_appearances p\<bar>
           / expected_appearances p"

definition recent_score :: "predictor \<Rightarrow> int \<Rightarrow> real" where
  "recent_score p number = min (real (get_or (recent_appearances (all_features p)) number 0) / 3) 1"

definition interval_score :: "predictor \<Rightarrow> int \<Rightarrow> real" where
  "interval_score p number =
     (let missing_interval = real_of_int (get_or (missing_intervals (all_features p)) number 0);
          avg_interval = expected_appearances p
      in if missing_interval > avg_interval * 1.5
         then min (missing_interval / (avg_interval * 2)) 1
         else 0.3)"

definition hot_cold_score :: "predictor \<Rightarrow> int \<Rightarrow> real" where
  "hot_cold_score p number =
     (if number \<in> set (hot (hot_cold (all_features p))) then 0.7
      else if number \<in> set (cold (hot_cold (all_features p))) then 0.8
      else 0.5)"

definition periodicity_score :: "predictor \<Rightarrow> int \<Rightarrow> real" where
  "periodicity_score p number =
     (case periodicity (all_features p) number of
        None \<Rightarrow> 0.5
      | Some entry \<Rightarrow>
          (case avg_interval entry of
             None \<Rightarrow> 0.5
           | Some expected_interval \<Rightarrow>
               let current_interval = real_of_int (get_or (missing_intervals (all_features p)) number 0)
               in if \<bar>current_interval - expected_interval\<bar> \<le> std_interval entry then 0.9 else 0.3))"

definition trend_score :: "predictor \<Rightarrow> int \<Rightarrow> real" where
  "trend_score p number =
     (case regression_trend (all_features p) number of
        None \<Rightarrow> 0.5
      | Some trend \<Rightarrow>
          if r_squared trend > 0.3 then (if slope trend > 0 then 0.8 else 0.6) else 0.5)"

definition ma_score :: "predictor \<Rightarrow> int \<Rightarrow> real" where
  "ma_score p number =
     (case moving_average (all_features p) number of
        Some Up \<Rightarrow> 0.7
      | Some Down \<Rightarrow> 0.8
      | _ \<Rightarrow> 0.5)"

definition attraction_score :: "predictor \<Rightarrow> int \<Rightarrow> real" where
  "attraction_score p number =
     (if get_or (attraction_effect (all_features p)) number 0 > 2 then 0.8 else 0.5)"

definition interval_name :: "int \<Rightarrow> string" where
  "interval_name number =
     (if 1 \<le> number \<and> number \<le> 10 then ''1-10''
      else if 11 \<le> number \<and> number \<le> 20 then ''11-20''
      else if 21 \<le> number \<and> number \<le> 30 then ''21-30''
      else if 31 \<le> number \<and> number \<le> 40 then ''31-40''
      else ''41-49'')"

definition distribution_score :: "predictor \<Rightarrow> int \<Rightarrow> real" where
  "distribution_score p number =
     (let interval_rate = get_or (distribution (all_features p)) (interval_name number) 0.2
      in if interval_rate < 0.15 then 0.8
         else if interval_rate > 0.25 then 0.3
         else 0.5)"

definition adjacent_score :: "predictor \<Rightarrow> real" where
  "adjacent_score p =
     (if get_or (adjacent_correlation (all_features p)) 1 0 > 0.1
         \<or> get_or (adjacent_correlation (all_features p)) 2 0 > 0.1
      then 0.6 else 0.5)"

text \<open>
  \<open>score += self.weights[name] * sub_score\<close>, one feature after the other; a feature name
  that is not a key of the weights raises \<open>KeyError\<close>.
\<close>

fun weighted_sum :: "weights \<Rightarrow> (string \<times> real) list \<Rightarrow> real \<Rightarrow> error + real" where
  "weighted_sum w [] score = Inr score"
| "weighted_sum w ((name, sub_score) # rest) score =
     (case map_of w name of
        None \<Rightarrow> Inl KeyError
      | Some weight \<Rightarrow> weighted_sum w rest (score + weight * sub_score))"

text \<open>
  The first sub-score divides by the expected number of appearances, which is 0.0 for an
  empty draw table: \<open>ZeroDivisionError\<close>.
\<close>

definition calculate_number_score :: "predictor \<Rightarrow> int \<Rightarrow> error + real" where
  "calculate_number_score p number =
     (if expected_appearances p = 0 then Inl ZeroDivisionError
      else weighted_sum (predictor_weights p)
             [(''total_appearances'', appearance_score p number),
              (''recent_appearances'', recent_score p number),
              (''missing_intervals'', interval_score p number),
              (''hot_cold'', hot_cold_score p number),
              (''periodicity'', periodicity_score p number),
              (''regression_trend'', trend_score p number),
              (''moving_average'', ma_score p number),
              (''attraction_effect'', attraction_score p number),
              (''distribution'', distribution_score p number),
              (''adjacent_correlation'', adjacent_score p)] 0)"

subsection \<open>calculate_combination_score\<close>

text \<open>
  \<open>int(n ** 0.5)\<close> for a non-negative integer: the integer square root. For a negative
  integer \<open>n ** 0.5\<close> is a complex number and \<open>int\<close> raises \<open>TypeError\<close>.
\<close>

fun nat_sqrt :: "nat \<Rightarrow> nat" where
  "nat_sqrt 0 = 0"
| "nat_sqrt (Suc n) = (let r = nat_sqrt n in if (r + 1) * (r + 1) \<le> Suc n then r + 1 else r)"

definition int_sqrt :: "int \<Rightarrow> int" where
  "int_sqrt n = int (nat_sqrt (nat n))"

definition is_prime :: "int \<Rightarrow> bool" where
  "is_prime n \<longleftrightarrow> \<not> n < 2 \<and> list_all (\<lambda>i. n mod i \<noteq> 0) [2 .. int_sqrt n]"

definition is_square :: "int \<Rightarrow> error + bool" where
  "is_square n = (if n < 0 then Inl TypeError else Inr (int_sqrt n * int_sqrt n = n))"

definition interval_counts :: "int list \<Rightarrow> nat list" where
  "interval_counts numbers =
     [length (filter (\<lambda>num. 1 \<le> num \<and> num \<le> 10) numbers),
      length (filter (\<lambda>num. 11 \<le> num \<and> num \<le> 20) numbers),
      length (filter (\<lambda>num. 21 \<le> num \<and> num \<le> 30) numbers),
      length (filter (\<lambda>num. 31 \<le> num \<and> num \<le> 40) numbers),
      length (filter (\<lambda>num. \<not> (1 \<le> num \<and> num \<le> 40)) numbers)]"

definition interval_points :: "nat \<Rightarrow> real" where
  "interval_points cnt = (if 1 \<le> cnt \<and> cnt \<le> 2 then 1 else if cnt = 0 then 0.3 else 0.5)"

text \<open>\<open>sum(1 for num in numbers if is_square(num))\<close>: the first negative number raises.\<close>

fun count_squares :: "int list \<Rightarrow> error + nat" where
  "count_squares [] = Inr 0"
| "count_squares (num # rest) =
     (case is_square num of
        Inl e \<Rightarrow> Inl e
      | Inr b \<Rightarrow> (case count_squares rest of
                    Inl e \<Rightarrow> Inl e
                  | Inr c \<Rightarrow> Inr ((if b then 1 else 0) + c)))"

definition calculate_combination_score :: "int list \<Rightarrow> error + real" where
  "calculate_combination_score numbers =
     (if length numbers \<noteq> 6 then Inr 0
      else
        let total = sum_list numbers;
            total_score = 1 - \<bar>real_of_int total - 147\<bar> / 147;
            odd_count = int (length (filter (\<lambda>num. num mod 2 = 1) numbers));
            even_count = 6 - odd_count;
            balance_score = 1 - \<bar>real_of_int (odd_count - even_count)\<bar> / 6;
            distribution_score = sum_list (map interval_points (interval_counts numbers)) / 5;
            consecutive_count = consecutive_in_row (sort numbers);
            consecutive_score = 1 - real consecutive_count / 3;
            prime_count = int (length (filter is_prime numbers));
            prime_score = 1 - \<bar>real_of_int (prime_count - 2)\<bar> / 6
        in case count_squares numbers of
             Inl e \<Rightarrow> Inl e
           | Inr square_count \<Rightarrow>
               let square_score = 1 - \<bar>real_of_int (int square_count - 1)\<bar> / 6
               in Inr (0.2 * total_score + 0.15 * balance_score + 0.15 * distribution_score
                       + 0.1 * consecutive_score + 0.1 * prime_score + 0.1 * square_score))"

subsection \<open>predict_numbers\<close>

text \<open>The slice \<open>xs[:n]\<close> for an integer \<open>n\<close>: a negative \<open>n\<close> counts from the end.\<close>

definition slice_to :: "int \<Rightarrow> 'a list \<Rightarrow> 'a list" where
  "slice_to n xs = (if 0 \<le> n then take (nat n) xs else take (length xs - nat (- n)) xs)"

text \<open>\<open>sorted(xs, key=..., reverse=True)\<close>: descending by key, equal keys in their original
  order.\<close>

definition sort_descending :: "('a \<times> real) list \<Rightarrow> ('a \<times> real) list" where
  "sort_descending xs = sort_key (\<lambda>x. - snd x) xs"

text \<open>The loop \<open>for num in range(1, 50)\<close> that fills \<open>number_scores\<close>.\<close>

fun collect_scores :: "predictor \<Rightarrow> int list \<Rightarrow> error + (int \<times> real) list" where
  "collect_scores p [] = Inr []"
| "collect_scores p (num # rest) =
     (case calculate_number_score p num of
        Inl e \<Rightarrow> Inl e
      | Inr s \<Rightarrow> (case collect_scores p rest of
                    Inl e \<Rightarrow> Inl e
                  | Inr r \<Rightarrow> Inr ((num, s) # r)))"

text \<open>
  \<open>random.sample(candidates, 6)\<close> raises \<open>ValueError\<close> when there are fewer than six
  candidates; otherwise it returns the candidates at six distinct positions, in the order
  drawn. The positions are the random source's choice: \<open>rnd i\<close> is the list of positions
  chosen at attempt \<open>i\<close>, and \<open>valid_choice\<close> says what the library guarantees about it.
\<close>

definition random_sample :: "int list \<Rightarrow> nat list \<Rightarrow> error + int list" where
  "random_sample candidates positions =
     (if length candidates < 6 then Inl ValueError else Inr (map (\<lambda>i. candidates ! i) positions))"

definition valid_choice :: "nat \<Rightarrow> nat list \<Rightarrow> bool" where
  "valid_choice n positions \<longleftrightarrow>
     length positions = 6 \<and> distinct positions \<and> list_all (\<lambda>i. i < n) positions"

definition is_duplicate :: "int list \<Rightarrow> (int list \<times> real) list \<Rightarrow> bool" where
  "is_duplicate selected accepted = list_ex (\<lambda>existing. set selected = set (fst existing)) accepted"

text \<open>
  The \<open>while\<close> loop; the result carries the final value of the counter \<open>attempts\<close> next to
  the accepted predictions.
\<close>

function generate_loop ::
  "(nat \<Rightarrow> nat list) \<Rightarrow> int list \<Rightarrow> int \<Rightarrow> int \<Rightarrow> (int list \<times> real) list \<Rightarrow> nat
     \<Rightarrow> error + (int list \<times> real) list \<times> nat" where
  "generate_loop rnd candidates num_predictions max_attempts accepted attempts =
     (if int (length accepted) < num_predictions \<and> int attempts < max_attempts
      then
        (case random_sample candidates (rnd attempts) of
           Inl e \<Rightarrow> Inl e
         | Inr selected \<Rightarrow>
             (case calculate_combination_score selected of
                Inl e \<Rightarrow> Inl e
              | Inr combination_score \<Rightarrow>
                  generate_loop rnd candidates num_predictions max_attempts
                    (if \<not> is_duplicate selected accepted
                     then accepted @ [(selected, combination_score)]
                     else accepted)
                    (attempts + 1)))
      else Inr (accepted, attempts))"
  by pat_completeness auto
termination
  by (relation "measure (\<lambda>(rnd, candidates, num_predictions, max_attempts, accepted, attempts).
        nat (max_attempts - int attempts))") auto

declare generate_loop.simps [simp del]

definition candidate_pool :: "predictor \<Rightarrow> int \<Rightarrow> error + int list" where
  "candidate_pool p num_candidates =
     (case collect_scores p [1..49] of
        Inl e \<Rightarrow> Inl e
      | Inr number_scores \<Rightarrow> Inr (map fst (slice_to num_candidates (sort_descending number_scores))))"

definition predict_numbers_attempts ::
  "predictor \<Rightarrow> (nat \<Rightarrow> nat list) \<Rightarrow> int \<Rightarrow> int \<Rightarrow> error + (int list \<times> real) list \<times> nat" where
  "predict_numbers_attempts p rnd num_candidates num_predictions =
     (case candidate_pool p num_candidates of
        Inl e \<Rightarrow> Inl e
      | Inr candidates \<Rightarrow>
          (case generate_loop rnd candidates num_predictions (num_predictions * 100) [] 0 of
             Inl e \<Rightarrow> Inl e
           | Inr (accepted, attempts) \<Rightarrow>
               Inr (slice_to num_predictions (sort_descending accepted), attempts)))"

definition predict_numbers ::
  "predictor \<Rightarrow> (nat \<Rightarrow> nat list) \<Rightarrow> int \<Rightarrow> int \<Rightarrow> error + (int list \<times> real) list" where
  "predict_numbers p rnd num_candidates num_predictions =
     map_sum id fst (predict_numbers_attempts p rnd num_candidates num_predictions)"

subsection \<open>calculate_confidence_score\<close>

definition np_mean :: "real list \<Rightarrow> error + real" where
  "np_mean xs = (if xs = [] then Inl NanResult else Inr (sum_list xs / real (length xs)))"

fun individual_scores :: "predictor \<Rightarrow> int list \<Rightarrow> error + real list" where
  "individual_scores p [] = Inr []"
| "individual_scores p (num # rest) =
     (case calculate_number_score p num of
        Inl e \<Rightarrow> Inl e
      | Inr s \<Rightarrow> (case individual_scores p rest of
                    Inl e \<Rightarrow> Inl e
                  | Inr r \<Rightarrow> Inr (s # r)))"

definition calculate_confidence_score :: "predictor \<Rightarrow> int list \<Rightarrow> real \<Rightarrow> error + real" where
  "calculate_confidence_score p numbers combination_score =
     (case individual_scores p numbers of
        Inl e \<Rightarrow> Inl e
      | Inr scores \<Rightarrow>
          (case np_mean scores of
             Inl e \<Rightarrow> Inl e
           | Inr avg_individual_score \<Rightarrow>
               let combo_score = combination_score;
                   confidence = avg_individual_score * 0.6 + combo_score * 0.4
               in Inr (confidence * 100)))"

subsection \<open>Proof-side notions and concrete inputs for the generator\<close>

text \<open>Loop invariant of the sampling loop: every accepted candidate is a valid sample with
  its combination score, and no two accepted candidates are equal as sets.\<close>

definition accepted_ok :: "int list \<Rightarrow> (int list \<times> real) list \<Rightarrow> bool" where
  "accepted_ok candidates accepted \<longleftrightarrow>
     list_all (\<lambda>c. length (fst c) = 6 \<and> distinct (fst c) \<and> set (fst c) \<subseteq> set candidates
                  \<and> calculate_combination_score (fst c) = Inr (snd c)) accepted
     \<and> distinct (map (\<lambda>c. set (fst c)) accepted)"

text \<open>
  A predictor over the one-draw history 1, 2, 3, 4, 5, 6 with the default weights and a
  feature dictionary without entries, so that every lookup yields its default and all 49
  numbers score alike.
\<close>

definition no_features :: feature_set where
  "no_features = \<lparr>total_appearances = Map.empty, recent_appearances = Map.empty,
      missing_intervals = Map.empty, hot_cold = \<lparr>hot = [], cold = []\<rparr>,
      periodicity = Map.empty, regression_trend = Map.empty, moving_average = Map.empty,
      attraction_effect = Map.empty, distribution = Map.empty,
      adjacent_correlation = Map.empty\<rparr>"

definition predictor0 :: predictor where
  "predictor0 = \<lparr>features_data = [draw1], all_features = no_features,
                  predictor_weights = default_weights\<rparr>"

text \<open>
  The same predictor with the features of that history as the extractor defines them:
  the numbers 1..6 appeared once (in total and recently), they are the cold numbers, they
  have missing interval 0 and every other number 1, and all drawn numbers fall into the
  range 1-10. No number has a second appearance, a trend or an attraction.
\<close>

definition one_draw_features :: feature_set where
  "one_draw_features = \<lparr>
      total_appearances = map_of [(1, 1), (2, 1), (3, 1), (4, 1), (5, 1), (6, 1)],
      recent_appearances = map_of [(1, 1), (2, 1), (3, 1), (4, 1), (5, 1), (6, 1)],
      missing_intervals = map_of (get_missing_intervals [draw1]),
      hot_cold = \<lparr>hot = [], cold = [1, 2, 3, 4, 5, 6]\<rparr>,
      periodicity = (\<lambda>n. if 1 \<le> n \<and> n \<le> 49 then Some \<lparr>avg_interval = None, std_interval = 0\<rparr> else None),
      regression_trend = (\<lambda>n. if 1 \<le> n \<and> n \<le> 49 then Some \<lparr>slope = 0, r_squared = 0\<rparr> else None),
      moving_average = (\<lambda>n. if 1 \<le> n \<and> n \<le> 49 then Some Stable else None),
      attraction_effect = (\<lambda>n. if 1 \<le> n \<and> n \<le> 49 then Some 0 else None),
      distribution = map_of [(''1-10'', 1), (''11-20'', 0), (''21-30'', 0), (''31-40'', 0), (''41-49'', 0)],
      adjacent_correlation = Map.empty\<rparr>"

definition predictor1 :: predictor where
  "predictor1 = \<lparr>features_data = [draw1], all_features = one_draw_features,
                  predictor_weights = default_weights\<rparr>"

text \<open>A random source that picks the positions 0..5 at even attempts and 5..0 at odd ones.\<close>

definition rnd0 :: "nat \<Rightarrow> nat list" where
  "rnd0 i = (if even i then [0, 1, 2, 3, 4, 5] else [5, 4, 3, 2, 1, 0])"

text \<open>A random source whose six positions move through a pool of twenty.\<close>

definition rnd1 :: "nat \<Rightarrow> nat list" where
  "rnd1 i = map (\<lambda>j. i mod 15 + j) [0, 1, 2, 3, 4, 5]"

section \<open>Evaluator: properties\<close>

lemma dist_ok_initial: "dist_ok initial_acc"
  by (auto simp: dist_ok_def initial_acc_def initial_distribution_def dom_def)

lemma scan_best_max: "fst (scan_best i hs b) = Max (insert (fst b) (set hs))"
proof (induction hs arbitrary: i b)
  case (Cons h hs)
  show ?case
  proof (cases "h > fst b")
    case True
    have "h \<le> Max (insert h (set hs))" by simp
    then have "max (fst b) (Max (insert h (set hs))) = Max (insert h (set hs))"
      using True by linarith
    then show ?thesis using True by (simp add: Cons)
  next
    case False
    have "fst b \<le> Max (insert (fst b) (set hs))" by simp
    then have "max h (Max (insert (fst b) (set hs))) = Max (insert (fst b) (set hs))"
      using False by linarith
    then show ?thesis using False by (simp add: Cons insert_commute [of "fst b" h])
  qed
qed simp

lemma scan_best_keep: "\<forall>h \<in> set hs. h \<le> fst b \<Longrightarrow> scan_best i hs b = b"
  by (induction hs arbitrary: i) auto

lemma scan_best_first:
  assumes "\<exists>h \<in> set hs. fst b < h"
  shows "\<exists>j<length hs. snd (scan_best i hs b) = int (i + j)
           \<and> hs ! j = fst (scan_best i hs b) \<and> (\<forall>k<j. hs ! k < hs ! j)"
  using assms
proof (induction hs arbitrary: i b)
  case (Cons h hs)
  let ?b = "if h > fst b then (h, int i) else b"
  show ?case
  proof (cases "\<exists>g \<in> set hs. fst ?b < g")
    case True
    from Cons.IH [OF True, of "i + 1"] obtain j where j: "j < length hs"
      "snd (scan_best (i + 1) hs ?b) = int (i + 1 + j)" "hs ! j = fst (scan_best (i + 1) hs ?b)"
      "\<forall>k<j. hs ! k < hs ! j" by blast
    have "fst ?b < hs ! j" using True j(3) scan_best_max [of "i + 1" hs ?b]
      by (metis List.finite_set Max_ge finite_insert insertCI less_le_trans)
    then have "h < hs ! j" by (auto split: if_splits)
    then have "\<forall>k<Suc j. (h # hs) ! k < (h # hs) ! Suc j"
      using j(4) by (auto simp: nth_Cons split: nat.splits)
    then show ?thesis using j(1,2,3) by (intro exI [of _ "Suc j"]) simp
  next
    case False
    then have "scan_best (i + 1) hs ?b = ?b" by (intro scan_best_keep) auto
    moreover have "fst b < h" using False Cons.prems by (auto split: if_splits)
    ultimately show ?thesis by (intro exI [of _ 0]) simp
  qed
qed simp


lemma eval_step_ok:
  assumes "dist_ok a" and "hits_of (sort (fst p)) actual \<le> 6"
  shows "\<exists>a'. eval_step actual i p a = Inr a' \<and> dist_ok a'
     \<and> map hit_count (acc_predictions a') = map hit_count (acc_predictions a) @ [hits_of (sort (fst p)) actual]
     \<and> map index (acc_predictions a') = map index (acc_predictions a) @ [i + 1]
     \<and> total_hits a' = total_hits a + hits_of (sort (fst p)) actual
     \<and> (best_hits a', best_index a') =
           (if hits_of (sort (fst p)) actual > best_hits a
            then (hits_of (sort (fst p)) actual, int i) else (best_hits a, best_index a))"
proof -
  let ?h = "hits_of (sort (fst p)) actual"
  from assms have "?h \<in> dom (map_of (acc_distribution a))"
    by (simp add: dist_ok_def)
  then obtain c where c: "map_of (acc_distribution a) ?h = Some c" by auto
  have "dom (map_of (AList.update ?h (c + 1) (acc_distribution a))) = {0..6}"
    using assms c by (auto simp: dist_ok_def update_conv')
  with c show ?thesis
    by (simp add: eval_step_def Let_def dist_ok_def)
qed

text \<open>The loop, started in any state whose histogram has the keys 0..6.\<close>

lemma eval_loop_ok:
  assumes "dist_ok a" and "\<forall>p \<in> set ps. hits_of (sort (fst p)) actual \<le> 6"
  shows "\<exists>a'. eval_loop actual i ps a = Inr a' \<and> dist_ok a'
     \<and> map hit_count (acc_predictions a') =
         map hit_count (acc_predictions a) @ map (\<lambda>p. hits_of (sort (fst p)) actual) ps
     \<and> map index (acc_predictions a') = map index (acc_predictions a) @ [i + 1 ..< i + 1 + length ps]
     \<and> total_hits a' = total_hits a + sum_list (map (\<lambda>p. hits_of (sort (fst p)) actual) ps)
     \<and> (best_hits a', best_index a') =
           scan_best i (map (\<lambda>p. hits_of (sort (fst p)) actual) ps) (best_hits a, best_index a)"
  using assms
proof (induction ps arbitrary: a i)
  case Nil
  then show ?case by simp
next
  case (Cons p ps)
  from eval_step_ok [of a p actual i] Cons.prems obtain a1 where
    s: "eval_step actual i p a = Inr a1" and ok1: "dist_ok a1"
    and f1: "map hit_count (acc_predictions a1) = map hit_count (acc_predictions a) @ [hits_of (sort (fst p)) actual]"
      "map index (acc_predictions a1) = map index (acc_predictions a) @ [i + 1]"
      "total_hits a1 = total_hits a + hits_of (sort (fst p)) actual"
      "(best_hits a1, best_index a1) =
           (if hits_of (sort (fst p)) actual > best_hits a
            then (hits_of (sort (fst p)) actual, int i) else (best_hits a, best_index a))"
    by auto
  have u: "[i + 1 ..< i + 1 + length (p # ps)] = (i + 1) # [i + 1 + 1 ..< i + 1 + 1 + length ps]"
    by (simp add: upt_conv_Cons del: upt_Suc)
  from Cons.IH [OF ok1, of "i + 1"] Cons.prems(2) show ?case
    unfolding u by (auto simp: s f1 simp del: upt_Suc)
qed

lemma evaluate_predictions_ok:
  assumes hs: "\<forall>p \<in> set preds. card (set (fst p) \<inter> set actual) \<le> 6" and ne: "preds \<noteq> []"
  shows "\<exists>e ev'. evaluate_predictions ev date preds actual = Inr (e, ev')
     \<and> map hit_count (predictions e) = map (\<lambda>p. card (set (fst p) \<inter> set actual)) preds
     \<and> map index (predictions e) = [1 ..< 1 + length preds]
     \<and> best_hit_count (summary e) = Max (set (map hit_count (predictions e)))
     \<and> average_hit_count (summary e) =
          real (sum_list (map hit_count (predictions e))) / real (length preds)
     \<and> (if best_hit_count (summary e) = 0 then best_prediction_index (summary e) = 0
         else \<exists>j<length preds. best_prediction_index (summary e) = int j + 1
                \<and> hit_count (predictions e ! j) = best_hit_count (summary e)
                \<and> (\<forall>k<j. hit_count (predictions e ! k) < best_hit_count (summary e)))"
proof -
  let ?h = "\<lambda>p. hits_of (sort (fst p)) (sort actual)"
  let ?hs = "map ?h preds"
  have heq: "?h = (\<lambda>p. card (set (fst p) \<inter> set actual))"
    by (simp add: hits_of_def)
  have "\<forall>p \<in> set preds. ?h p \<le> 6" using hs by (simp add: hits_of_def)
  from eval_loop_ok [OF dist_ok_initial this, of 0] obtain a where
    l: "eval_loop (sort actual) 0 preds initial_acc = Inr a"
    and p: "map hit_count (acc_predictions a) = ?hs"
    and x: "map index (acc_predictions a) = [1 ..< 1 + length preds]"
    and t: "total_hits a = sum_list ?hs"
    and b: "(best_hits a, best_index a) = scan_best 0 ?hs (0, - 1)"
    by (auto simp: initial_acc_def simp del: upt_Suc)
  define e where "e = \<lparr>draw_date = date, actual_result = sort actual,
       total_predictions = length preds, predictions = acc_predictions a,
       summary = \<lparr>best_hit_count = best_hits a, best_prediction_index = best_index a + 1,
                  average_hit_count = real (total_hits a) / real (length preds),
                  hit_distribution = acc_distribution a\<rparr>\<rparr>"
  have r: "evaluate_predictions ev date preds actual =
      Inr (e, save_evaluation_results (ev\<lparr>results := (results ev)(date \<mapsto> e)\<rparr>))"
    using l ne by (simp add: evaluate_predictions_def e_def Let_def)
  have bh: "best_hits a = fst (scan_best 0 ?hs (0, - 1))"
    and bi: "best_index a = snd (scan_best 0 ?hs (0, - 1))"
    using b by (metis fst_conv, metis snd_conv)
  have bmax: "best_hits a = Max (set ?hs)"
    using ne by (simp add: bh scan_best_max)
  have len: "length (acc_predictions a) = length preds"
    using p by (metis length_map)
  have nth: "hit_count (acc_predictions a ! k) = ?hs ! k" if "k < length preds" for k
    using that len arg_cong [OF p, of "\<lambda>xs. xs ! k"] by simp
  have bidx: "if best_hits a = 0 then best_index a + 1 = 0
         else \<exists>j<length preds. best_index a + 1 = int j + 1
                \<and> hit_count (acc_predictions a ! j) = best_hits a
                \<and> (\<forall>k<j. hit_count (acc_predictions a ! k) < best_hits a)"
  proof (cases "\<exists>h \<in> set ?hs. fst (0 :: nat, - 1 :: int) < h")
    case True
    from scan_best_first [OF True, of 0] obtain j where "j < length ?hs"
      "best_index a = int j" "?hs ! j = best_hits a" "\<forall>k<j. ?hs ! k < ?hs ! j"
      by (auto simp: bh bi)
    moreover from True obtain g where "g \<in> set ?hs" "0 < g" by auto
    then have "g \<le> Max (set ?hs)" "0 < g" by simp_all
    then have "best_hits a \<noteq> 0" using bmax by linarith
    ultimately show ?thesis by (auto simp: nth)
  next
    case False
    then have "scan_best 0 ?hs (0, - 1) = (0, - 1)" by (intro scan_best_keep) auto
    then show ?thesis by (simp add: bh bi)
  qed
  have sel: "predictions e = acc_predictions a" "best_hit_count (summary e) = best_hits a"
    "best_prediction_index (summary e) = best_index a + 1"
    "average_hit_count (summary e) = real (total_hits a) / real (length preds)"
    by (simp_all add: e_def)
  show ?thesis
    apply (rule exI [of _ e], rule exI, intro conjI, rule r)
    using p x bmax bidx by (simp_all only: sel heq p t)
qed

text \<open>
  Claim C4 (as amended). For a non-empty batch and a 6-number actual outcome the
  evaluator returns a result in which every prediction's \<open>hit_count\<close> is the size of the
  intersection of the predicted and the actual numbers taken as sets, the predictions are
  numbered 1, 2, ... in input order, \<open>best_hit_count\<close> is the maximum hit count and
  \<open>average_hit_count\<close> the sum of the hit counts divided by the batch size. When the
  maximum is positive, \<open>best_prediction_index\<close> is the number of the first prediction that
  reaches it; when no prediction hits anything it is 0 and designates no prediction.
  For the outcome 1..6 and the predictions 1..6 and 7..12 the hit counts are 6 and 0,
  the best hit count 6, the average 3 and the best prediction is number 1.
\<close>

theorem evaluate_predictions_summary:
  assumes "length actual = 6" and "preds \<noteq> []"
  shows "(\<exists>e ev'. evaluate_predictions ev date preds actual = Inr (e, ev')
     \<and> map hit_count (predictions e) = map (\<lambda>p. card (set (fst p) \<inter> set actual)) preds
     \<and> map index (predictions e) = [1 ..< 1 + length preds]
     \<and> best_hit_count (summary e) = Max (set (map hit_count (predictions e)))
     \<and> average_hit_count (summary e) =
          real (sum_list (map hit_count (predictions e))) / real (length preds)
     \<and> (if best_hit_count (summary e) = 0 then best_prediction_index (summary e) = 0
         else \<exists>j<length preds. best_prediction_index (summary e) = int j + 1
                \<and> hit_count (predictions e ! j) = best_hit_count (summary e)
                \<and> (\<forall>k<j. hit_count (predictions e ! k) < best_hit_count (summary e))))
   \<and> summary_view (evaluate_predictions ev date
           [([1, 2, 3, 4, 5, 6], c1), ([7, 8, 9, 10, 11, 12], c2)] [1, 2, 3, 4, 5, 6])
       = Inr ([6, 0], 6, 3, 1)"
proof -
  have "\<forall>p \<in> set preds. card (set (fst p) \<inter> set actual) \<le> 6"
  proof
    fix p
    have "card (set (fst p) \<inter> set actual) \<le> card (set actual)"
      by (rule card_mono) auto
    also have "\<dots> \<le> length actual" by (rule card_length)
    finally show "card (set (fst p) \<inter> set actual) \<le> 6" using assms(1) by simp
  qed
  note general = evaluate_predictions_ok [OF this assms(2), of ev date]
  have scenario: "summary_view (evaluate_predictions ev date
           [([1, 2, 3, 4, 5, 6], c1), ([7, 8, 9, 10, 11, 12], c2)] [1, 2, 3, 4, 5, 6])
       = Inr ([6, 0], 6, 3, 1)"
    by (simp add: summary_view_def evaluate_predictions_def eval_step_def hits_of_def
        initial_acc_def initial_distribution_def save_evaluation_results_def Let_def)
  from general scenario show ?thesis by (rule conjI)
qed

text \<open>
  Witness for C4: the theorem at the outcome 1..6 with the two-prediction batch; the
  result exists and its first prediction, with 6 hits, is the designated best one.
\<close>

theorem evaluate_predictions_summary_witness:
  "length [1, 2, 3, 4, 5, 6 :: int] = 6
   \<and> summary_view (evaluate_predictions evaluator0 ''2024-01-01''
        [([1, 2, 3, 4, 5, 6], 80), ([7, 8, 9, 10, 11, 12], 20)] [1, 2, 3, 4, 5, 6])
       = Inr ([6, 0], 6, 3, 1)"
  using evaluate_predictions_summary [of "[1, 2, 3, 4, 5, 6]"
        "[([1, 2, 3, 4, 5, 6], 80), ([7, 8, 9, 10, 11, 12], 20)]"
        evaluator0 "''2024-01-01''" 80 20]
  by simp

text \<open>
  Counterexample to C4 as stated: a one-prediction batch that hits nothing. The maximum
  hit count 0 is reached by prediction number 1, yet \<open>best_prediction_index\<close> is 0.
\<close>

theorem best_prediction_index_no_hits_counterexample:
  "summary_view (evaluate_predictions evaluator0 ''2024-01-01''
        [([7, 8, 9, 10, 11, 12], 50)] [1, 2, 3, 4, 5, 6])
     = Inr ([0], 0, 0, 0)"
  by (simp add: summary_view_def evaluate_predictions_def eval_step_def hits_of_def
        initial_acc_def initial_distribution_def save_evaluation_results_def Let_def)

text \<open>
  Claim C10. With an empty batch the division by the batch size raises
  \<open>ZeroDivisionError\<close> and no result is returned; with a non-empty batch none of whose
  predictions shares a number with the outcome, the result has \<open>best_hit_count\<close> 0 and
  \<open>best_prediction_index\<close> 0.
\<close>

theorem evaluate_predictions_empty_or_no_hits:
  "evaluate_predictions ev date [] actual = Inl ZeroDivisionError
   \<and> (preds \<noteq> [] \<and> (\<forall>p \<in> set preds. set (fst p) \<inter> set actual = {}) \<longrightarrow>
        (\<exists>e ev'. evaluate_predictions ev date preds actual = Inr (e, ev')
            \<and> best_hit_count (summary e) = 0 \<and> best_prediction_index (summary e) = 0))"
proof (intro conjI impI)
  show "evaluate_predictions ev date [] actual = Inl ZeroDivisionError"
    by (simp add: evaluate_predictions_def)
next
  assume a: "preds \<noteq> [] \<and> (\<forall>p \<in> set preds. set (fst p) \<inter> set actual = {})"
  then have z: "\<forall>p \<in> set preds. card (set (fst p) \<inter> set actual) = 0" by simp
  then have "\<forall>p \<in> set preds. card (set (fst p) \<inter> set actual) \<le> 6" by simp
  from evaluate_predictions_ok [OF this, of ev date] a obtain e ev' where
    r: "evaluate_predictions ev date preds actual = Inr (e, ev')"
    and h: "map hit_count (predictions e) = map (\<lambda>p. card (set (fst p) \<inter> set actual)) preds"
    and b: "best_hit_count (summary e) = Max (set (map hit_count (predictions e)))"
    and i: "if best_hit_count (summary e) = 0 then best_prediction_index (summary e) = 0
         else \<exists>j<length preds. best_prediction_index (summary e) = int j + 1
                \<and> hit_count (predictions e ! j) = best_hit_count (summary e)
                \<and> (\<forall>k<j. hit_count (predictions e ! k) < best_hit_count (summary e))"
    by blast
  from a obtain q where "q \<in> set preds" by (cases preds) auto
  then have "set (map (\<lambda>p. card (set (fst p) \<inter> set actual)) preds) = {0}"
    using z by auto
  then have "Max (set (map (\<lambda>p. card (set (fst p) \<inter> set actual)) preds)) = 0"
    by (simp only: Max_singleton)
  then have "best_hit_count (summary e) = 0" using b h by simp
  then show "\<exists>e ev'. evaluate_predictions ev date preds actual = Inr (e, ev')
            \<and> best_hit_count (summary e) = 0 \<and> best_prediction_index (summary e) = 0"
    using r i by auto
qed

text \<open>
  Witness for C10: two predictions disjoint from the outcome 1..6.
\<close>

theorem evaluate_predictions_empty_or_no_hits_witness:
  "evaluate_predictions evaluator0 ''2024-01-01'' [] [1, 2, 3, 4, 5, 6] = Inl ZeroDivisionError
   \<and> (\<exists>e ev'. evaluate_predictions evaluator0 ''2024-01-01''
           [([7, 8, 9, 10, 11, 12], 50), ([13, 14, 15, 16, 17, 18], 40)] [1, 2, 3, 4, 5, 6] = Inr (e, ev')
            \<and> best_hit_count (summary e) = 0 \<and> best_prediction_index (summary e) = 0)"
  using evaluate_predictions_empty_or_no_hits [of evaluator0 "''2024-01-01''" "[1, 2, 3, 4, 5, 6]"
        "[([7, 8, 9, 10, 11, 12], 50), ([13, 14, 15, 16, 17, 18], 40)]"]
  by simp

section \<open>Feature extractor: properties\<close>

lemma last_appearance_loop_absent:
  "\<forall>row \<in> set rows. num \<notin> set (row_values row) \<Longrightarrow> last_appearance_loop num i rows = - 1"
  by (induction rows arbitrary: i) auto

lemma last_appearance_loop_first:
  assumes "\<forall>row \<in> set pre. num \<notin> set (row_values row)" and "num \<in> set (row_values row)"
  shows "last_appearance_loop num i (pre @ row # rest) = int (i + length pre)"
  using assms by (induction pre arbitrary: i) auto

text \<open>
  What the code computes: the distance from the last row to the \<^emph>\<open>first\<close> row that
  contains the number, whatever comes after that row.
\<close>

lemma missing_interval_first_row:
  assumes "\<forall>row \<in> set pre. num \<notin> set (row_values row)" and "num \<in> set (row_values row)"
  shows "missing_interval (pre @ row # rest) num = int (length rest)"
  using last_appearance_loop_first [OF assms, of 0 rest]
  by (simp add: missing_interval_def Let_def)

lemma missing_interval_absent:
  assumes "\<forall>row \<in> set data. num \<notin> set (row_values row)"
  shows "missing_interval data num = int (length data)"
  using last_appearance_loop_absent [OF assms, of 0]
  by (simp add: missing_interval_def)

lemma map_of_get_missing_intervals:
  "1 \<le> num \<Longrightarrow> num \<le> 49 \<Longrightarrow>
     map_of (get_missing_intervals data) num = Some (missing_interval data num)"
  unfolding get_missing_intervals_def
  by (simp add: map_of_map_restrict restrict_map_def)

text \<open>
  Claim C2 (the code at the failing input). In a history of 30 draws that all contain the
  number 7, the most recent appearance of 7 is the last draw, so zero draws have passed
  since; the code stops at row 0 and returns 30 - 1 - 0 = 29. A number that never appears
  (here 1) gets the history length 30.
\<close>

theorem missing_intervals_scenario_a:
  "map_of (get_missing_intervals (replicate 30 draw7)) 7 = Some 29
   \<and> map_of (get_missing_intervals (replicate 30 draw7)) 1 = Some 30"
proof -
  have in7: "7 \<in> set (row_values draw7)" by (simp add: row_values_def draw7_def)
  have "replicate 30 draw7 = [] @ draw7 # replicate 29 draw7"
    by (simp add: numeral_eq_Suc)
  then have "missing_interval (replicate 30 draw7) 7 = int (length (replicate 29 draw7))"
    using missing_interval_first_row [of "[]" 7 draw7 "replicate 29 draw7"] in7 by simp
  then have a: "missing_interval (replicate 30 draw7) 7 = 29" by simp
  have "\<forall>row \<in> set (replicate 30 draw7). 1 \<notin> set (row_values row)"
    by (simp add: row_values_def draw7_def)
  then have "missing_interval (replicate 30 draw7) 1 = int (length (replicate 30 draw7))"
    by (rule missing_interval_absent)
  then have b: "missing_interval (replicate 30 draw7) 1 = 30" by simp
  show ?thesis using a b by (simp add: map_of_get_missing_intervals)
qed






section \<open>Weight learner: properties\<close>

subsection \<open>Dictionaries that tabulate a function\<close>

lemma tabulates_empty: "tabulates f []"
  by (simp add: tabulates_def)

lemma set_update_cases:
  "(k', v') \<in> set (AList.update k v d) \<Longrightarrow> (k' = k \<and> v' = v) \<or> (k', v') \<in> set d"
  by (induction d) (auto split: if_splits)

lemma tabulates_update:
  assumes "tabulates f d"
  shows "tabulates f (AList.update k (f k) d)"
proof -
  have "distinct (map fst (AList.update k (f k) d))"
    using assms by (simp add: tabulates_def distinct_update)
  moreover have "\<forall>(k', v') \<in> set (AList.update k (f k) d). v' = f k'"
    using assms set_update_cases [of _ _ k "f k" d] by (fastforce simp: tabulates_def)
  ultimately show ?thesis by (simp add: tabulates_def)
qed

lemma keys_update: "fst ` set (AList.update k v d) = insert k (fst ` set d)"
  by (simp add: dom_update)

lemma fold_update_tabulates:
  assumes "tabulates f d"
  shows "tabulates f (fold (\<lambda>n. AList.update n (f n)) xs d)
       \<and> fst ` set (fold (\<lambda>n. AList.update n (f n)) xs d) = fst ` set d \<union> set xs"
  using assms
proof (induction xs arbitrary: d)
  case Nil
  then show ?case by simp
next
  case (Cons x xs)
  from Cons.IH [OF tabulates_update [OF Cons.prems, of x]]
  show ?case by (auto simp: keys_update)
qed

lemma tabulates_sum:
  assumes "tabulates f d"
  shows "sum_list (map snd d) = (\<Sum>k \<in> fst ` set d. f k)" and "length d = card (fst ` set d)"
proof -
  have dist: "distinct (map fst d)" using assms by (simp add: tabulates_def)
  have "map snd d = map f (map fst d)"
    using assms by (auto simp: tabulates_def)
  then have "sum_list (map snd d) = sum_list (map f (map fst d))" by (simp only:)
  also have "\<dots> = (\<Sum>k \<in> set (map fst d). f k)"
    using dist by (rule sum_list_distinct_conv_sum_set)
  finally show "sum_list (map snd d) = (\<Sum>k \<in> fst ` set d. f k)" by simp
  have "card (set (map fst d)) = length (map fst d)" using dist by (rule distinct_card)
  then show "length d = card (fst ` set d)" by simp
qed

lemma mean_or_zero_tabulates:
  assumes "tabulates f d"
  shows "mean_or_zero d = group_mean f (fst ` set d)"
  using tabulates_sum [OF assms]
  by (auto simp: mean_or_zero_def group_mean_def)

subsection \<open>analyze_single_feature\<close>

lemma store_feature_value_handled:
  "handled feature_name \<Longrightarrow>
     store_feature_value feature_name features = (\<lambda>n. AList.update n (feature_get features feature_name n))"
  by (auto simp: handled_def store_feature_value_def fun_eq_iff)

lemma actual_feature_values_handled:
  assumes "handled feature_name"
  shows "tabulates (feature_get features feature_name) (actual_feature_values feature_name features actual)"
    and "fst ` set (actual_feature_values feature_name features actual) = set actual"
  using fold_update_tabulates [OF tabulates_empty, of "feature_get features feature_name" actual]
  by (simp_all add: actual_feature_values_def store_feature_value_handled [OF assms])

lemma predicted_fold_tabulates:
  assumes "tabulates f d"
  shows "tabulates f (fold (\<lambda>pred d. if hit_count pred \<ge> 2
                      then fold (\<lambda>n. AList.update n (f n)) (predicted_numbers pred) d
                      else d) preds d)
       \<and> fst ` set (fold (\<lambda>pred d. if hit_count pred \<ge> 2
                      then fold (\<lambda>n. AList.update n (f n)) (predicted_numbers pred) d
                      else d) preds d) = fst ` set d \<union> well_hit_numbers preds"
  using assms
proof (induction preds arbitrary: d)
  case Nil
  then show ?case by (simp add: well_hit_numbers_def)
next
  case (Cons p ps)
  show ?case
  proof (cases "hit_count p \<ge> 2")
    case True
    from fold_update_tabulates [OF Cons.prems, of "predicted_numbers p"]
    have t: "tabulates f (fold (\<lambda>n. AList.update n (f n)) (predicted_numbers p) d)"
      and k: "fst ` set (fold (\<lambda>n. AList.update n (f n)) (predicted_numbers p) d)
               = fst ` set d \<union> set (predicted_numbers p)"
      by simp_all
    from Cons.IH [OF t] k True show ?thesis
      by (auto simp: well_hit_numbers_def)
  next
    case False
    with Cons.IH [OF Cons.prems] show ?thesis
      by (auto simp: well_hit_numbers_def)
  qed
qed

lemma predicted_feature_values_handled:
  assumes "handled feature_name"
  shows "tabulates (feature_get features feature_name) (predicted_feature_values feature_name features preds)"
    and "fst ` set (predicted_feature_values feature_name features preds) = well_hit_numbers preds"
  using predicted_fold_tabulates [OF tabulates_empty, of "feature_get features feature_name" preds]
  unfolding predicted_feature_values_def store_feature_value_handled [OF assms]
  by simp_all

text \<open>
  Claim C3 (as amended). For the three feature names whose values the learner reads
  (\<open>total_appearances\<close>, \<open>recent_appearances\<close>, \<open>missing_intervals\<close>) the effectiveness is
  max(0, 1 - |a - p| / max(a, p, 1)), where a is the mean of the feature's values over the
  distinct numbers of the actual outcome and p the mean over the distinct numbers of the
  predictions with at least two hits, an empty group counting as average 0. With both
  groups empty the effectiveness is therefore 1.
\<close>

theorem analyze_single_feature_effectiveness:
  assumes "feature_name = ''total_appearances'' \<or> feature_name = ''recent_appearances''
     \<or> feature_name = ''missing_intervals''"
  shows "effectiveness (analyze_single_feature feature_name features actual preds) =
      max 0 (1 - \<bar>group_mean (feature_get features feature_name) (set actual)
                   - group_mean (feature_get features feature_name) (well_hit_numbers preds)\<bar>
                 / max (max (group_mean (feature_get features feature_name) (set actual))
                            (group_mean (feature_get features feature_name) (well_hit_numbers preds))) 1)
    \<and> (set actual = {} \<and> well_hit_numbers preds = {} \<longrightarrow>
          effectiveness (analyze_single_feature feature_name features actual preds) = 1)"
proof -
  have h: "handled feature_name" using assms by (simp add: handled_def)
  have a: "mean_or_zero (actual_feature_values feature_name features actual)
      = group_mean (feature_get features feature_name) (set actual)"
    using mean_or_zero_tabulates [OF actual_feature_values_handled(1) [OF h]]
      actual_feature_values_handled(2) [OF h] by simp
  have p: "mean_or_zero (predicted_feature_values feature_name features preds)
      = group_mean (feature_get features feature_name) (well_hit_numbers preds)"
    using mean_or_zero_tabulates [OF predicted_feature_values_handled(1) [OF h]]
      predicted_feature_values_handled(2) [OF h] by simp
  have e: "effectiveness (analyze_single_feature feature_name features actual preds) =
      max 0 (1 - \<bar>group_mean (feature_get features feature_name) (set actual)
                   - group_mean (feature_get features feature_name) (well_hit_numbers preds)\<bar>
                 / max (max (group_mean (feature_get features feature_name) (set actual))
                            (group_mean (feature_get features feature_name) (well_hit_numbers preds))) 1)"
    by (simp only: analyze_single_feature_def Let_def a p feature_performance.simps)
  have "effectiveness (analyze_single_feature feature_name features actual preds) = 1"
    if "set actual = {} \<and> well_hit_numbers preds = {}"
    unfolding e using that by (simp add: group_mean_def)
  with e show ?thesis by blast
qed

text \<open>
  Witness for C3: recent appearance counts 2, 1, 0, 0, 0, 0 on the outcome 1..6 (average
  1/2) and 2, 1, 3, 0, 0, 0 on the one prediction with two hits (average 1) give the
  effectiveness 1 - (1/2) / 1 = 1/2.
\<close>

theorem analyze_single_feature_effectiveness_witness:
  "effectiveness (analyze_single_feature ''recent_appearances'' features1 [1, 2, 3, 4, 5, 6] [pred_two_hits]) = 1 / 2"
  using analyze_single_feature_effectiveness [of "''recent_appearances''" features1 "[1, 2, 3, 4, 5, 6]" "[pred_two_hits]"]
  by (simp add: group_mean_def well_hit_numbers_def pred_two_hits_def features1_def feature_get_def)

text \<open>
  Counterexample to C3 as stated. With no number in the actual outcome and no prediction
  at all, the effectiveness of \<open>recent_appearances\<close> is 1, not 0. With the outcome 1..6
  and only a prediction without hits, so that the predicted group is empty, it is 1/2.
  For \<open>hot_cold\<close>, a name for which no values are collected, it is 1.
\<close>

theorem effectiveness_empty_group_counterexample:
  "effectiveness (analyze_single_feature ''recent_appearances'' features1 [] []) = 1
   \<and> effectiveness (analyze_single_feature ''recent_appearances'' features1 [1, 2, 3, 4, 5, 6] [pred_no_hits]) = 1 / 2
   \<and> effectiveness (analyze_single_feature ''hot_cold'' features1 [1, 2, 3, 4, 5, 6] [pred_two_hits]) = 1"
  by (simp add: analyze_single_feature_def actual_feature_values_def predicted_feature_values_def
      store_feature_value_def mean_or_zero_def features1_def feature_get_def
      pred_no_hits_def pred_two_hits_def Let_def)



subsection \<open>apply_weight_adjustments\<close>

lemma update_as_map:
  assumes "distinct (map fst w)" and "k \<in> fst ` set w"
  shows "AList.update k x w = map (\<lambda>(k', v). (k', if k' = k then x else v)) w"
  using assms
proof (induction w)
  case Nil
  then show ?case by simp
next
  case (Cons p w)
  show ?case
  proof (cases "fst p = k")
    case True
    then have "k \<notin> fst ` set w" using Cons.prems(1) by auto
    then have "map (\<lambda>(k', v). (k', if k' = k then x else v)) w = w"
      by (induction w) auto
    then show ?thesis using True by (cases p) simp
  next
    case False
    then have "k \<in> fst ` set w" using Cons.prems(2) by auto
    with Cons.IH Cons.prems(1) False show ?thesis by (cases p) simp
  qed
qed

lemma adjust_loop_result:
  assumes "distinct (map fst adj)" and "distinct (map fst w)" and "fst ` set adj \<subseteq> fst ` set w"
  shows "\<exists>out'. adjust_loop adj (w, out) = Inr (map (\<lambda>(k, v). (k, adjusted adj k v)) w, out')"
  using assms
proof (induction adj arbitrary: w out)
  case Nil
  then show ?case by (simp add: adjusted_def)
next
  case (Cons p rest)
  obtain k a where p: "p = (k, a)" by (cases p)
  have kin: "k \<in> fst ` set w" using Cons.prems(3) p by simp
  then obtain old where old: "map_of w k = Some old"
    by (metis domD dom_map_of_conv_image_fst)
  define x where "x = clamp_weight (old + a)"
  define out1 where "out1 = (if \<bar>a\<bar> > 0.001 then out @ [MsgWeightChange k old x a] else out)"
  let ?w1 = "AList.update k x w"
  have step: "adjust_loop (p # rest) (w, out) = adjust_loop rest (?w1, out1)"
    using old by (simp add: p Let_def x_def out1_def clamp_weight_def)
  have w1: "?w1 = map (\<lambda>(k', v). (k', if k' = k then x else v)) w"
    by (rule update_as_map [OF Cons.prems(2) kin])
  have d1: "distinct (map fst ?w1)" using Cons.prems(2) by (rule distinct_update)
  have k1: "fst ` set rest \<subseteq> fst ` set ?w1"
    using Cons.prems(3) by (auto simp: dom_update)
  have dr: "distinct (map fst rest)" and knot: "k \<notin> fst ` set rest"
    using Cons.prems(1) p by auto
  have none: "map_of rest k = None" using knot by (simp add: map_of_eq_None_iff)
  have eq: "map (\<lambda>(k', v). (k', adjusted rest k' v)) ?w1 = map (\<lambda>(k', v). (k', adjusted (p # rest) k' v)) w"
  proof -
    have "(case kv of (k', v) \<Rightarrow> (k', adjusted rest k' (if k' = k then x else v)))
        = (case kv of (k', v) \<Rightarrow> (k', adjusted (p # rest) k' v))" if "kv \<in> set w" for kv
    proof -
      obtain k' v where kv: "kv = (k', v)" by (cases kv)
      show ?thesis
      proof (cases "k' = k")
        case True
        then have "map_of w k = Some v" using that kv Cons.prems(2) by simp
        then have "v = old" using old by simp
        then show ?thesis using True kv none p
          by (simp add: adjusted_def x_def)
      next
        case False
        then show ?thesis using kv p by (simp add: adjusted_def)
      qed
    qed
    then have "map ((\<lambda>(k', v). (k', adjusted rest k' v)) \<circ> (\<lambda>(k', v). (k', if k' = k then x else v))) w
        = map (\<lambda>(k', v). (k', adjusted (p # rest) k' v)) w"
      by (intro map_cong) (auto simp: case_prod_beta)
    then show ?thesis by (simp only: w1 map_map)
  qed
  from Cons.IH [OF dr d1 k1] obtain out' where
    "adjust_loop rest (?w1, out1) = Inr (map (\<lambda>(k', v). (k', adjusted rest k' v)) ?w1, out')"
    by blast
  then have "adjust_loop (p # rest) (w, out) = Inr (map (\<lambda>(k', v). (k', adjusted (p # rest) k' v)) w, out')"
    by (simp only: step eq)
  then show ?case by blast
qed

lemma clamp_weight_bounds: "0.01 \<le> clamp_weight x" "clamp_weight x \<le> 0.5"
  by (simp_all add: clamp_weight_def)

lemma sum_list_lower:
  fixes xs :: "real list"
  assumes "\<forall>x \<in> set xs. c \<le> x"
  shows "c * real (length xs) \<le> sum_list xs"
  using assms by (induction xs) (auto simp: algebra_simps)

lemma normalize_weights_sum:
  assumes "w \<noteq> []" and "\<forall>(k, v) \<in> set w. 0.01 \<le> v"
  shows "0 < sum_list (map snd w)"
    and "normalize_weights w = Inr (map (\<lambda>(k, v). (k, v / sum_list (map snd w))) w)"
    and "sum_list (map snd (map (\<lambda>(k, v). (k, v / sum_list (map snd w))) w)) = 1"
proof -
  let ?T = "sum_list (map snd w)"
  have "\<forall>x \<in> set (map snd w). 0.01 \<le> x" using assms(2) by auto
  then have "0.01 * real (length (map snd w)) \<le> ?T" by (rule sum_list_lower)
  moreover have "0 < 0.01 * real (length (map snd w))" using assms(1) by simp
  ultimately show pos: "0 < ?T" by linarith
  then show "normalize_weights w = Inr (map (\<lambda>(k, v). (k, v / ?T)) w)"
    by (simp add: normalize_weights_def Let_def)
  have "map snd (map (\<lambda>(k, v). (k, v / ?T)) w) = map (\<lambda>v. v * inverse ?T) (map snd w)"
    by (simp add: case_prod_beta divide_inverse)
  then have "sum_list (map snd (map (\<lambda>(k, v). (k, v / ?T)) w)) = ?T * inverse ?T"
    by (simp only: sum_list_mult_const [symmetric] map_map comp_def) 
  then show "sum_list (map snd (map (\<lambda>(k, v). (k, v / ?T)) w)) = 1"
    using pos by simp
qed


lemma member_le_sum_list_real:
  fixes xs :: "real list"
  assumes "\<forall>x \<in> set xs. 0 \<le> x" and "y \<in> set xs"
  shows "y \<le> sum_list xs"
  using assms
proof (induction xs)
  case Nil
  then show ?case by simp
next
  case (Cons x xs)
  have "0 \<le> sum_list xs" using Cons.prems(1) by (simp add: sum_list_nonneg)
  then show ?case using Cons by auto
qed

text \<open>
  Claim C1 (as amended). For non-empty weights with distinct names and adjustments over
  exactly the same names, \<open>apply_weight_adjustments\<close> succeeds. Each weight plus its delta
  is clamped to [0.01, 0.5]; the result is the clamped value divided by the total T of
  the clamped values. The resulting weights sum to 1 and each lies in (0, 1]; they are
  not confined to [0.01, 0.5].
\<close>

theorem apply_weight_adjustments_normalized:
  assumes "distinct (map fst (weights l))" and "distinct (map fst adjustments)"
    and "set (map fst adjustments) = set (map fst (weights l))" and "weights l \<noteq> []"
  shows "\<exists>l' T. apply_weight_adjustments l adjustments = Inr l'
      \<and> T = sum_list (map (\<lambda>(k, v). clamp_weight (v + the (map_of adjustments k))) (weights l))
      \<and> 0 < T
      \<and> weights l' = map (\<lambda>(k, v). (k, clamp_weight (v + the (map_of adjustments k)) / T)) (weights l)
      \<and> sum_list (map snd (weights l')) = 1
      \<and> (\<forall>(k, v) \<in> set (weights l'). 0 < v \<and> v \<le> 1)
      \<and> (\<forall>x. 0.01 \<le> clamp_weight x \<and> clamp_weight x \<le> 0.5)"
proof -
  let ?w = "weights l"
  let ?c = "\<lambda>(k, v). (k, clamp_weight (v + the (map_of adjustments k)))"
  let ?w2 = "map ?c ?w"
  have sub: "fst ` set adjustments \<subseteq> fst ` set ?w" using assms(3) by simp
  from adjust_loop_result [OF assms(2) assms(1) sub, of "printed l @ [MsgAdjustHeader]"]
  obtain out' where
    loop: "adjust_loop adjustments (?w, printed l @ [MsgAdjustHeader])
       = Inr (map (\<lambda>(k, v). (k, adjusted adjustments k v)) ?w, out')"
    by blast
  have "(case kv of (k, v) \<Rightarrow> (k, adjusted adjustments k v)) = ?c kv" if "kv \<in> set ?w" for kv
  proof -
    obtain k v where kv: "kv = (k, v)" by (cases kv)
    then have "k \<in> fst ` set adjustments" using that assms(3) by force
    then obtain a where "map_of adjustments k = Some a"
      by (metis domD dom_map_of_conv_image_fst)
    then show ?thesis using kv by (simp add: adjusted_def)
  qed
  then have w2: "map (\<lambda>(k, v). (k, adjusted adjustments k v)) ?w = ?w2"
    by (intro map_cong) auto
  have ne: "?w2 \<noteq> []" using assms(4) by simp
  have lo: "\<forall>(k, v) \<in> set ?w2. 0.01 \<le> v"
    using clamp_weight_bounds(1) by auto
  define T where "T = sum_list (map snd ?w2)"
  have "map snd ?w2 = map (\<lambda>(k, v). clamp_weight (v + the (map_of adjustments k))) ?w"
    by (simp add: split_def)
  then have T: "T = sum_list (map (\<lambda>(k, v). clamp_weight (v + the (map_of adjustments k))) ?w)"
    by (simp only: T_def)
  have pos: "0 < T" and norm: "normalize_weights ?w2 = Inr (map (\<lambda>(k, v). (k, v / T)) ?w2)"
    and one: "sum_list (map snd (map (\<lambda>(k, v). (k, v / T)) ?w2)) = 1"
    unfolding T_def using normalize_weights_sum [OF ne lo] by blast+
  define l' where "l' = l\<lparr>weights := map (\<lambda>(k, v). (k, v / T)) ?w2, printed := out' @ [MsgAdjustDone]\<rparr>"
  have res: "apply_weight_adjustments l adjustments = Inr l'"
    by (simp add: apply_weight_adjustments_def loop w2 norm l'_def)
  have wl': "weights l' = map (\<lambda>(k, v). (k, clamp_weight (v + the (map_of adjustments k)) / T)) ?w"
    by (simp add: l'_def case_prod_beta comp_def)
  have sum1: "sum_list (map snd (weights l')) = 1"
    using one by (simp add: l'_def)
  have rng: "\<forall>(k, v) \<in> set (weights l'). 0 < v \<and> v \<le> 1"
  proof -
    have "0 < v \<and> v \<le> 1" if "(k, v) \<in> set (weights l')" for k v
    proof -
      from that obtain k0 v0 where kv0: "(k0, v0) \<in> set ?w"
        and v: "v = clamp_weight (v0 + the (map_of adjustments k0)) / T"
        unfolding wl' by auto
      let ?x = "clamp_weight (v0 + the (map_of adjustments k0))"
      have "0.01 \<le> ?x" by (rule clamp_weight_bounds)
      then have xpos: "0 < ?x" by simp
      have "?x \<in> set (map snd ?w2)" using kv0 by force
      moreover have "\<forall>y \<in> set (map snd ?w2). 0 \<le> y"
        using lo by fastforce
      ultimately have "?x \<le> T" unfolding T_def by (intro member_le_sum_list_real)
      then show ?thesis using xpos pos by (simp add: v)
    qed
    then show ?thesis by blast
  qed
  have cl: "\<forall>x. 0.01 \<le> clamp_weight x \<and> clamp_weight x \<le> 0.5"
    using clamp_weight_bounds by simp
  show ?thesis
    by (rule exI [of _ l'], rule exI [of _ T], intro conjI) (fact res T pos wl' sum1 rng cl)+
qed

text \<open>
  Witness for C1: the default weights with adjustments of +0.08 and +0.1; the clamped
  values sum to 1.94.
\<close>

theorem apply_weight_adjustments_normalized_witness:
  "weights_view (apply_weight_adjustments learner0 adjustments0) =
     Inr [(''total_appearances'', 23 / 194), (''recent_appearances'', 28 / 194),
          (''missing_intervals'', 23 / 194), (''hot_cold'', 20 / 194), (''periodicity'', 20 / 194),
          (''regression_trend'', 18 / 194), (''moving_average'', 18 / 194),
          (''attraction_effect'', 15 / 194), (''distribution'', 15 / 194),
          (''adjacent_correlation'', 14 / 194)]
   \<and> (\<exists>l'. apply_weight_adjustments learner0 adjustments0 = Inr l'
          \<and> sum_list (map snd (weights l')) = 1)"
proof -
  have h1: "distinct (map fst (weights learner0))"
    by (simp add: learner0_def default_weights_def)
  have h2: "distinct (map fst adjustments0)"
    by (simp add: adjustments0_def)
  have h3: "set (map fst adjustments0) = set (map fst (weights learner0))"
    by (simp add: learner0_def default_weights_def adjustments0_def)
  have h4: "weights learner0 \<noteq> []"
    by (simp add: learner0_def default_weights_def)
  from apply_weight_adjustments_normalized [OF h1 h2 h3 h4] have
    ex: "\<exists>l'. apply_weight_adjustments learner0 adjustments0 = Inr l'
          \<and> sum_list (map snd (weights l')) = 1"
    by blast
  have "weights_view (apply_weight_adjustments learner0 adjustments0) =
     Inr [(''total_appearances'', 23 / 194), (''recent_appearances'', 28 / 194),
          (''missing_intervals'', 23 / 194), (''hot_cold'', 20 / 194), (''periodicity'', 20 / 194),
          (''regression_trend'', 18 / 194), (''moving_average'', 18 / 194),
          (''attraction_effect'', 15 / 194), (''distribution'', 15 / 194),
          (''adjacent_correlation'', 14 / 194)]"
    by (simp add: weights_view_def apply_weight_adjustments_def normalize_weights_def
       learner0_def default_weights_def adjustments0_def Let_def)
  with ex show ?thesis by (intro conjI)
qed

text \<open>
  Counterexample to C1 as stated: weights that sum to 1 and lie in [0.01, 0.5]; after the
  deltas the clamped values are 0.01, 0.32, 0.01 and seven times 0.02, with total 0.48, so
  the renormalized weight of \<open>recent_appearances\<close> is 2/3, above 0.5.
\<close>

theorem renormalized_weight_above_half_counterexample:
  "weights_view (apply_weight_adjustments learner1 adjustments1) =
     Inr [(''total_appearances'', 1 / 48), (''recent_appearances'', 2 / 3),
          (''missing_intervals'', 1 / 48), (''hot_cold'', 1 / 24), (''periodicity'', 1 / 24),
          (''regression_trend'', 1 / 24), (''moving_average'', 1 / 24),
          (''attraction_effect'', 1 / 24), (''distribution'', 1 / 24),
          (''adjacent_correlation'', 1 / 24)]"
  by (simp add: weights_view_def apply_weight_adjustments_def normalize_weights_def
       learner1_def adjustments1_def Let_def)

section \<open>Scoring engine and combination generator: properties\<close>

subsection \<open>The integer square root\<close>

lemma nat_sqrt_bounds: "nat_sqrt n * nat_sqrt n \<le> n \<and> n < (nat_sqrt n + 1) * (nat_sqrt n + 1)"
proof (induction n)
  case 0
  then show ?case by simp
next
  case (Suc n)
  then show ?case by (auto simp: Let_def)
qed

subsection \<open>Slices and descending sort\<close>

lemma slice_to_take: "\<exists>n. slice_to k xs = take n xs"
  by (auto simp: slice_to_def)

lemma set_slice_to: "set (slice_to k xs) \<subseteq> set xs"
  using slice_to_take [of k xs] by (auto dest: in_set_takeD)

lemma length_slice_to: "0 \<le> k \<Longrightarrow> length (slice_to k xs) = min (nat k) (length xs)"
  by (simp add: slice_to_def)

lemma distinct_map_slice_to: "distinct (map f xs) \<Longrightarrow> distinct (map f (slice_to k xs))"
proof -
  assume d: "distinct (map f xs)"
  obtain n where n: "slice_to k xs = take n xs" using slice_to_take by blast
  have "distinct (take n (map f xs))" using d by (rule distinct_take)
  then show ?thesis by (simp add: n take_map)
qed

lemma set_sort_descending: "set (sort_descending xs) = set xs"
  by (simp add: sort_descending_def)

lemma length_sort_descending: "length (sort_descending xs) = length xs"
  by (simp add: sort_descending_def)

lemma sorted_sort_descending: "sorted (map (\<lambda>x. - snd x) (sort_descending xs))"
  by (simp add: sort_descending_def)

lemma distinct_map_sort_descending:
  "distinct (map f xs) \<Longrightarrow> distinct (map f (sort_descending xs))"
proof -
  assume d: "distinct (map f xs)"
  have "mset (map f (sort_descending xs)) = mset (map f xs)"
    by (simp add: sort_descending_def)
  then show ?thesis using d by (metis distinct_count_atmost_1 set_mset_mset)
qed

subsection \<open>The candidate pool\<close>

lemma collect_scores_fst:
  "collect_scores p ns = Inr r \<Longrightarrow> map fst r = ns"
  by (induction ns arbitrary: r) (auto split: sum.splits)

lemma candidate_pool_props:
  assumes "candidate_pool p num_candidates = Inr candidates"
  shows "distinct candidates" and "set candidates \<subseteq> {1..49}"
    and "0 \<le> num_candidates \<Longrightarrow> length candidates = min (nat num_candidates) 49"
proof -
  from assms obtain scores where sc: "collect_scores p [1..49] = Inr scores"
    and c: "candidates = map fst (slice_to num_candidates (sort_descending scores))"
    by (auto simp: candidate_pool_def split: sum.splits)
  have f: "map fst scores = [1..49]" using sc by (rule collect_scores_fst)
  have "distinct (map fst scores)" by (simp add: f)
  then have "distinct (map fst (sort_descending scores))" by (rule distinct_map_sort_descending)
  then show "distinct candidates" unfolding c by (rule distinct_map_slice_to)
  have "set candidates \<subseteq> fst ` set scores"
    unfolding c using set_slice_to [of num_candidates "sort_descending scores"]
    by (auto simp: set_sort_descending)
  also have "\<dots> = set [1..49]" using f by (metis set_map)
  finally show "set candidates \<subseteq> {1..49}" by simp
  have "length (map fst scores) = length [1..49::int]" by (simp only: f)
  then have "length scores = 49" by simp
  then show "length candidates = min (nat num_candidates) 49" if "0 \<le> num_candidates"
    using that by (simp add: c length_slice_to length_sort_descending)
qed


subsection \<open>One sampling attempt\<close>

lemma random_sample_props:
  assumes "6 \<le> length candidates" and "distinct candidates" and "valid_choice (length candidates) positions"
  shows "\<exists>selected. random_sample candidates positions = Inr selected
      \<and> length selected = 6 \<and> distinct selected \<and> set selected \<subseteq> set candidates"
proof -
  have len: "length positions = 6" and dp: "distinct positions"
    and rng: "\<forall>i \<in> set positions. i < length candidates"
    using assms(3) by (simp_all add: valid_choice_def list_all_iff)
  let ?sel = "map (\<lambda>i. candidates ! i) positions"
  have "inj_on (\<lambda>i. candidates ! i) (set positions)"
    using assms(2) rng by (auto simp: inj_on_def nth_eq_iff_index_eq)
  then have "distinct ?sel" using dp by (simp add: distinct_map)
  moreover have "set ?sel \<subseteq> set candidates" using rng by auto
  moreover have "length ?sel = 6" using len by simp
  moreover have "random_sample candidates positions = Inr ?sel"
    using assms(1) by (simp add: random_sample_def)
  ultimately show ?thesis by blast
qed

lemma count_squares_defined:
  "\<forall>n \<in> set numbers. 0 \<le> n \<Longrightarrow> \<exists>c. count_squares numbers = Inr c"
  by (induction numbers) (auto simp: is_square_def)

lemma calculate_combination_score_defined:
  assumes "\<forall>n \<in> set numbers. 0 \<le> n"
  shows "\<exists>s. calculate_combination_score numbers = Inr s"
proof -
  from count_squares_defined [OF assms] obtain c where "count_squares numbers = Inr c" by blast
  then show ?thesis by (simp add: calculate_combination_score_def Let_def)
qed

subsection \<open>The sampling loop\<close>

lemma is_duplicate_iff: "is_duplicate selected accepted \<longleftrightarrow> set selected \<in> set (map (\<lambda>c. set (fst c)) accepted)"
  by (auto simp: is_duplicate_def list_ex_iff)

lemma generate_loop_invariant:
  assumes "6 \<le> length candidates" and "distinct candidates" and "\<forall>n \<in> set candidates. 0 \<le> n"
    and "\<forall>i. valid_choice (length candidates) (rnd i)"
    and "accepted_ok candidates accepted"
    and "0 < attempts \<longrightarrow> accepted \<noteq> []"
  shows "\<exists>accepted' attempts'.
      generate_loop rnd candidates num_predictions max_attempts accepted attempts = Inr (accepted', attempts')
      \<and> accepted_ok candidates accepted'
      \<and> (0 < attempts' \<longrightarrow> accepted' \<noteq> [])
      \<and> attempts \<le> attempts'
      \<and> int attempts' \<le> max (int attempts) max_attempts
      \<and> int (length accepted') \<le> max (int (length accepted)) num_predictions
      \<and> (int (length accepted') < num_predictions \<longrightarrow> max_attempts \<le> int attempts')"
  using assms
proof (induction rnd candidates num_predictions max_attempts accepted attempts rule: generate_loop.induct)
  case (1 rnd candidates num_predictions max_attempts accepted attempts)
  show ?case
  proof (cases "int (length accepted) < num_predictions \<and> int attempts < max_attempts")
    case False
    have "generate_loop rnd candidates num_predictions max_attempts accepted attempts
        = Inr (accepted, attempts)"
      by (subst generate_loop.simps) (rule if_not_P [OF False])
    moreover have "int (length accepted) < num_predictions \<longrightarrow> max_attempts \<le> int attempts"
      using False by auto
    ultimately show ?thesis using "1.prems"(5,6) by auto
  next
    case True
    from random_sample_props [OF "1.prems"(1,2)] "1.prems"(4) obtain selected where
      sel: "random_sample candidates (rnd attempts) = Inr selected"
      and sel6: "length selected = 6" and seld: "distinct selected"
      and sels: "set selected \<subseteq> set candidates"
      by blast
    have "\<forall>n \<in> set selected. 0 \<le> n" using sels "1.prems"(3) by auto
    from calculate_combination_score_defined [OF this] obtain cs where
      cs: "calculate_combination_score selected = Inr cs" by blast
    define acc1 where "acc1 = (if \<not> is_duplicate selected accepted
                     then accepted @ [(selected, cs)] else accepted)"
    have step: "generate_loop rnd candidates num_predictions max_attempts accepted attempts
        = generate_loop rnd candidates num_predictions max_attempts acc1 (attempts + 1)"
      by (subst generate_loop.simps, subst if_P [OF True]) (simp add: sel cs acc1_def)
    have ok1: "accepted_ok candidates acc1"
      using "1.prems"(5) sel6 seld sels cs
      by (auto simp: acc1_def accepted_ok_def is_duplicate_iff)
    have ne1: "0 < attempts + 1 \<longrightarrow> acc1 \<noteq> []"
      by (auto simp: acc1_def is_duplicate_def)
    have len1: "int (length acc1) \<le> num_predictions"
      using True by (auto simp: acc1_def)
    have len0: "length accepted \<le> length acc1"
      by (auto simp: acc1_def)
    from "1.IH" [OF True sel cs "1.prems"(1-4) ok1 [unfolded acc1_def] ne1 [unfolded acc1_def]]
    obtain accepted' attempts' where
      r: "generate_loop rnd candidates num_predictions max_attempts acc1 (attempts + 1)
            = Inr (accepted', attempts')"
      and ok': "accepted_ok candidates accepted'"
      and ne': "0 < attempts' \<longrightarrow> accepted' \<noteq> []"
      and a1: "attempts + 1 \<le> attempts'"
      and a2: "int attempts' \<le> max (int (attempts + 1)) max_attempts"
      and l2: "int (length accepted') \<le> max (int (length acc1)) num_predictions"
      and ex: "int (length accepted') < num_predictions \<longrightarrow> max_attempts \<le> int attempts'"
      unfolding acc1_def by blast
    have "attempts \<le> attempts'" using a1 by simp
    moreover have "int attempts' \<le> max (int attempts) max_attempts"
      using a2 True by auto
    moreover have "int (length accepted') \<le> max (int (length accepted)) num_predictions"
      using l2 len1 by auto
    ultimately show ?thesis using step r ok' ne' ex by auto
  qed
qed



subsection \<open>predict_numbers\<close>

lemma same_key_length:
  assumes "distinct (map f xs)" and "\<forall>x \<in> set xs. f x = a"
  shows "length xs \<le> 1"
proof (cases xs)
  case Nil
  then show ?thesis by simp
next
  case (Cons x ys)
  show ?thesis
  proof (cases ys)
    case Nil
    then show ?thesis using Cons by simp
  next
    case (Cons y zs)
    then have "f x = f y" using assms(2) \<open>xs = x # ys\<close> by simp
    then show ?thesis using assms(1) \<open>xs = x # ys\<close> Cons by simp
  qed
qed

lemma predict_numbers_core:
  assumes pool: "candidate_pool p num_candidates = Inr candidates"
    and six: "6 \<le> length candidates"
    and rnd: "\<forall>i. valid_choice (length candidates) (rnd i)"
  shows "\<exists>accepted attempts.
      predict_numbers_attempts p rnd num_candidates k = Inr (sort_descending accepted, attempts)
      \<and> accepted_ok candidates accepted
      \<and> (0 < attempts \<longrightarrow> accepted \<noteq> [])
      \<and> int attempts \<le> max 0 (k * 100)
      \<and> int (length accepted) \<le> max 0 k
      \<and> (int (length accepted) < k \<longrightarrow> k * 100 \<le> int attempts)"
proof -
  have d: "distinct candidates" and r: "set candidates \<subseteq> {1..49}"
    using candidate_pool_props(1,2) [OF pool] by blast+
  have nn: "\<forall>n \<in> set candidates. 0 \<le> n" using r by auto
  have ok0: "accepted_ok candidates []" by (simp add: accepted_ok_def)
  have ne0: "0 < (0::nat) \<longrightarrow> ([] :: (int list \<times> real) list) \<noteq> []" by simp
  from generate_loop_invariant [OF six d nn rnd ok0 ne0, of k "k * 100"]
  obtain accepted attempts where
    l: "generate_loop rnd candidates k (k * 100) [] 0 = Inr (accepted, attempts)"
    and ok: "accepted_ok candidates accepted"
    and ne: "0 < attempts \<longrightarrow> accepted \<noteq> []"
    and a: "int attempts \<le> max (int 0) (k * 100)"
    and n: "int (length accepted) \<le> max (int (length ([] :: (int list \<times> real) list))) k"
    and e: "int (length accepted) < k \<longrightarrow> k * 100 \<le> int attempts"
    by blast
  have len: "int (length accepted) \<le> max 0 k" using n by simp
  have "slice_to k (sort_descending accepted) = sort_descending accepted"
  proof (cases "0 \<le> k")
    case True
    then have "length accepted \<le> nat k" using len by simp
    then show ?thesis using True by (simp add: slice_to_def length_sort_descending)
  next
    case False
    then have "accepted = []" using len by simp
    then show ?thesis by (simp add: slice_to_def sort_descending_def)
  qed
  then have "predict_numbers_attempts p rnd num_candidates k = Inr (sort_descending accepted, attempts)"
    by (simp add: predict_numbers_attempts_def pool l)
  then show ?thesis using ok ne a len e by auto
qed

text \<open>
  Claim C6 (as amended). With a pool of at least six candidates and a random source that
  returns six distinct positions of the pool at every attempt, \<open>predict_numbers\<close> returns
  without raising after at most 100 k sampling attempts (none for k \<le> 0) with at most k
  candidates; when it returns fewer than k candidates the budget of exactly 100 k attempts
  has been used up and the candidates found so far are returned. With a pool of exactly
  six numbers and k \<ge> 1 it returns exactly one candidate, whose numbers are the pool.
\<close>

theorem predict_numbers_budget:
  assumes "candidate_pool p num_candidates = Inr candidates"
    and "6 \<le> length candidates"
    and "\<forall>i. valid_choice (length candidates) (rnd i)"
  shows "\<exists>preds attempts.
      predict_numbers_attempts p rnd num_candidates k = Inr (preds, attempts)
      \<and> predict_numbers p rnd num_candidates k = Inr preds
      \<and> int attempts \<le> max 0 (100 * k)
      \<and> int (length preds) \<le> max 0 k
      \<and> (int (length preds) < k \<longrightarrow> int attempts = 100 * k)
      \<and> (length candidates = 6 \<and> 1 \<le> k \<longrightarrow>
            length preds = 1 \<and> set (fst (hd preds)) = set candidates)"
proof -
  from predict_numbers_core [OF assms, of k] obtain accepted attempts where
    r: "predict_numbers_attempts p rnd num_candidates k = Inr (sort_descending accepted, attempts)"
    and ok: "accepted_ok candidates accepted"
    and ne: "0 < attempts \<longrightarrow> accepted \<noteq> []"
    and a: "int attempts \<le> max 0 (k * 100)"
    and n: "int (length accepted) \<le> max 0 k"
    and e: "int (length accepted) < k \<longrightarrow> k * 100 \<le> int attempts"
    by blast
  let ?preds = "sort_descending accepted"
  have r2: "predict_numbers p rnd num_candidates k = Inr ?preds"
    by (simp add: predict_numbers_def r)
  have a': "int attempts \<le> max 0 (100 * k)" using a by (simp add: mult.commute)
  have n': "int (length ?preds) \<le> max 0 k" using n by (simp add: length_sort_descending)
  have e': "int (length ?preds) < k \<longrightarrow> int attempts = 100 * k"
    using e a n by (auto simp: length_sort_descending)
  have one: "length ?preds = 1 \<and> set (fst (hd ?preds)) = set candidates"
    if h: "length candidates = 6 \<and> 1 \<le> k"
  proof -
    have d: "distinct candidates" using candidate_pool_props(1) [OF assms(1)] .
    have card6: "card (set candidates) = 6" using d h by (simp add: distinct_card)
    have full: "set (fst c) = set candidates" if "c \<in> set accepted" for c
    proof -
      have "length (fst c) = 6" "distinct (fst c)" "set (fst c) \<subseteq> set candidates"
        using ok that by (auto simp: accepted_ok_def list_all_iff)
      then have "card (set (fst c)) = card (set candidates)"
        using card6 by (simp add: distinct_card)
      then show ?thesis using \<open>set (fst c) \<subseteq> set candidates\<close>
        by (simp add: card_subset_eq)
    qed
    have "distinct (map (\<lambda>c. set (fst c)) accepted)" using ok by (simp add: accepted_ok_def)
    then have le1: "length accepted \<le> 1"
      using full by (intro same_key_length [where f = "\<lambda>c. set (fst c)" and a = "set candidates"]) auto
    have "accepted \<noteq> []"
    proof
      assume emp: "accepted = []"
      then have "k * 100 \<le> int attempts" using e h by simp
      then have "0 < attempts" using h by simp
      then show False using ne emp by simp
    qed
    then have l1: "length accepted = 1" using le1 by (cases accepted) auto
    then have l1': "length ?preds = 1" by (simp add: length_sort_descending)
    then obtain c where c: "?preds = [c]" by (cases ?preds) auto
    then have "c \<in> set accepted" using set_sort_descending [of accepted] by auto
    then have "set (fst c) = set candidates" by (rule full)
    then show ?thesis using l1' c by simp
  qed
  show ?thesis
    by (rule exI [of _ ?preds], rule exI [of _ attempts], intro conjI impI)
       (use r r2 a' n' e' one in blast)+
qed

text \<open>
  Claim C7. Under the same conditions every returned candidate consists of six distinct
  integers between 1 and 49 and carries its combination score, no two returned candidates
  are equal as sets, and the batch is in descending order of combination score.
\<close>

theorem predict_numbers_candidates:
  assumes "candidate_pool p num_candidates = Inr candidates"
    and "6 \<le> length candidates"
    and "\<forall>i. valid_choice (length candidates) (rnd i)"
  shows "\<exists>preds.
      predict_numbers p rnd num_candidates k = Inr preds
      \<and> (\<forall>c \<in> set preds. length (fst c) = 6 \<and> distinct (fst c) \<and> set (fst c) \<subseteq> {1..49}
              \<and> calculate_combination_score (fst c) = Inr (snd c))
      \<and> distinct (map (\<lambda>c. set (fst c)) preds)
      \<and> sorted_wrt (\<lambda>a b. snd b \<le> snd a) preds"
proof -
  from predict_numbers_core [OF assms, of k] obtain accepted attempts where
    r: "predict_numbers_attempts p rnd num_candidates k = Inr (sort_descending accepted, attempts)"
    and ok: "accepted_ok candidates accepted"
    by blast
  let ?preds = "sort_descending accepted"
  have r2: "predict_numbers p rnd num_candidates k = Inr ?preds"
    by (simp add: predict_numbers_def r)
  have rng: "set candidates \<subseteq> {1..49}" using candidate_pool_props(2) [OF assms(1)] .
  have each: "\<forall>c \<in> set ?preds. length (fst c) = 6 \<and> distinct (fst c) \<and> set (fst c) \<subseteq> {1..49}
              \<and> calculate_combination_score (fst c) = Inr (snd c)"
    using ok rng by (auto simp: accepted_ok_def list_all_iff set_sort_descending)
  have "distinct (map (\<lambda>c. set (fst c)) accepted)" using ok by (simp add: accepted_ok_def)
  then have dis: "distinct (map (\<lambda>c. set (fst c)) ?preds)"
    by (rule distinct_map_sort_descending)
  have "sorted (map (\<lambda>x. - snd x) ?preds)" by (rule sorted_sort_descending)
  then have srt: "sorted_wrt (\<lambda>a b. snd b \<le> snd a) ?preds"
    by (simp add: sorted_map)
  show ?thesis using r2 each dis srt by blast
qed


subsection \<open>Concrete predictors\<close>

lemma predictor0_score: "calculate_number_score predictor0 n = Inr (59 / 200)"
  by (simp add: calculate_number_score_def predictor0_def no_features_def default_weights_def
        expected_appearances_def appearance_score_def recent_score_def interval_score_def
        hot_cold_score_def periodicity_score_def trend_score_def ma_score_def attraction_score_def
        distribution_score_def adjacent_score_def get_or_def Let_def)

lemma predictor0_collect: "collect_scores predictor0 ns = Inr (map (\<lambda>n. (n, 59 / 200)) ns)"
  by (induction ns) (simp_all add: predictor0_score)

lemma sort_descending_constant: "sort_descending (map (\<lambda>n. (n, c)) ns) = map (\<lambda>n. (n, c)) ns"
proof -
  have "sorted (map (\<lambda>x. - snd x) (map (\<lambda>n. (n, c)) ns))"
    by (induction ns) auto
  then show ?thesis unfolding sort_descending_def by (rule sort_key_id_if_sorted)
qed

lemma predictor0_pool: "0 \<le> k \<Longrightarrow> candidate_pool predictor0 k = Inr (take (nat k) [1..49])"
  by (simp add: candidate_pool_def predictor0_collect sort_descending_constant slice_to_def
        take_map comp_def)

lemma predictor0_pool6: "candidate_pool predictor0 6 = Inr [1, 2, 3, 4, 5, 6]"
proof -
  have "take (nat 6) [1..49] = [1, 2, 3, 4, 5, 6 :: int]"
    by (simp add: upto.simps)
  then show ?thesis using predictor0_pool [of 6] by simp
qed

lemma rnd0_valid: "\<forall>i. valid_choice 6 (rnd0 i)"
  by (simp add: valid_choice_def rnd0_def)

lemma rnd1_valid: "\<forall>i. valid_choice 20 (rnd1 i)"
proof
  fix i :: nat
  have "i mod 15 < 15" by simp
  then show "valid_choice 20 (rnd1 i)"
    by (auto simp: valid_choice_def rnd1_def)
qed

text \<open>
  Witness for C6: six predictions requested from the pool 1..6. Every attempt draws the
  pool itself, so all 600 attempts are used and one candidate is returned.
\<close>

theorem predict_numbers_budget_witness:
  "\<exists>preds. predict_numbers_attempts predictor0 rnd0 6 6 = Inr (preds, 600)
      \<and> length preds = 1 \<and> set (fst (hd preds)) = {1, 2, 3, 4, 5, 6}"
proof -
  have l6: "length [1, 2, 3, 4, 5, 6 :: int] = 6" by simp
  have six: "6 \<le> length [1, 2, 3, 4, 5, 6 :: int]" by simp
  have rv: "\<forall>i. valid_choice (length [1, 2, 3, 4, 5, 6 :: int]) (rnd0 i)"
    unfolding l6 by (rule rnd0_valid)
  from predict_numbers_budget [OF predictor0_pool6 six rv, of 6] obtain preds attempts where
    r: "predict_numbers_attempts predictor0 rnd0 6 6 = Inr (preds, attempts)"
    and e: "int (length preds) < 6 \<longrightarrow> int attempts = 100 * 6"
    and o: "length [1, 2, 3, 4, 5, 6 :: int] = 6 \<and> (1::int) \<le> 6 \<longrightarrow>
            length preds = 1 \<and> set (fst (hd preds)) = set [1, 2, 3, 4, 5, 6]"
    by blast
  from o have l: "length preds = 1" and s: "set (fst (hd preds)) = {1, 2, 3, 4, 5, 6}"
    by simp_all
  from e l have "attempts = 600" by simp
  with r l s show ?thesis by blast
qed

text \<open>
  Counterexample to C6 as stated: from the pool 1..6 with a requested count of 0 the loop
  is never entered and no candidate is returned, not one.
\<close>

theorem predict_numbers_zero_requested_counterexample:
  "predict_numbers_attempts predictor0 rnd0 6 0 = Inr ([], 0)"
  by (simp add: predict_numbers_attempts_def predictor0_pool6 generate_loop.simps
        slice_to_def sort_descending_def)

text \<open>
  Witness for C7: six predictions requested from the twenty best-scored numbers, with a
  random source whose positions change from attempt to attempt.
\<close>

theorem predict_numbers_candidates_witness:
  "\<exists>preds. predict_numbers predictor0 rnd1 20 6 = Inr preds
      \<and> list_all (\<lambda>c. length (fst c) = 6 \<and> distinct (fst c) \<and> set (fst c) \<subseteq> {1..49}) preds
      \<and> distinct (map (\<lambda>c. set (fst c)) preds)
      \<and> sorted_wrt (\<lambda>a b. snd b \<le> snd a) preds"
proof -
  have pool: "candidate_pool predictor0 20 = Inr (take (nat 20) [1..49])"
    by (rule predictor0_pool) simp
  have len: "length (take (nat 20) [1..49 :: int]) = 20" by simp
  have six: "6 \<le> length (take (nat 20) [1..49 :: int])" unfolding len by simp
  have rv: "\<forall>i. valid_choice (length (take (nat 20) [1..49 :: int])) (rnd1 i)"
    unfolding len by (rule rnd1_valid)
  from predict_numbers_candidates [OF pool six rv, of 6] show ?thesis
    by (auto simp: list_all_iff)
qed


subsection \<open>calculate_confidence_score\<close>

lemma individual_scores_length:
  "individual_scores p numbers = Inr scores \<Longrightarrow> length scores = length numbers"
  by (induction numbers arbitrary: scores) (auto split: sum.splits)

lemma individual_scores_nth:
  "individual_scores p numbers = Inr scores \<Longrightarrow>
     \<forall>i < length numbers. calculate_number_score p (numbers ! i) = Inr (scores ! i)"
proof (induction numbers arbitrary: scores)
  case Nil
  then show ?case by simp
next
  case (Cons n ns)
  then obtain s r where s: "calculate_number_score p n = Inr s"
    and r: "individual_scores p ns = Inr r" and sc: "scores = s # r"
    by (auto split: sum.splits)
  from Cons.IH [OF r] s sc show ?case
    by (auto simp: nth_Cons split: nat.splits)
qed

text \<open>
  Claim C8 (as amended). For a candidate of six numbers whose per-number scores are
  defined, the confidence is 100 * (0.6 * mean of the six scores + 0.4 * combination
  score); it is strictly increasing in the combination score for fixed per-number scores;
  and it lies in [0, 100] whenever the mean per-number score and the combination score
  both lie in [0, 1].
\<close>

theorem confidence_score_formula:
  assumes "individual_scores p numbers = Inr scores" and "length numbers = 6"
  shows "calculate_confidence_score p numbers c = Inr (100 * (0.6 * (sum_list scores / 6) + 0.4 * c))
     \<and> length scores = 6
     \<and> (\<forall>i < 6. calculate_number_score p (numbers ! i) = Inr (scores ! i))
     \<and> (c < c' \<longrightarrow>
           (\<exists>v v'. calculate_confidence_score p numbers c = Inr v
                  \<and> calculate_confidence_score p numbers c' = Inr v' \<and> v < v'))
     \<and> (0 \<le> sum_list scores / 6 \<and> sum_list scores / 6 \<le> 1 \<and> 0 \<le> c \<and> c \<le> 1 \<longrightarrow>
           (\<exists>v. calculate_confidence_score p numbers c = Inr v \<and> 0 \<le> v \<and> v \<le> 100))"
proof -
  have len: "length scores = 6"
    using individual_scores_length [OF assms(1)] assms(2) by simp
  then have ne: "scores \<noteq> []" by auto
  have nth: "\<forall>i < 6. calculate_number_score p (numbers ! i) = Inr (scores ! i)"
    using individual_scores_nth [OF assms(1)] assms(2) by simp
  have f: "calculate_confidence_score p numbers x = Inr (100 * (0.6 * (sum_list scores / 6) + 0.4 * x))" for x
    using ne len by (simp add: calculate_confidence_score_def assms(1) np_mean_def Let_def)
  have mono: "\<exists>v v'. calculate_confidence_score p numbers c = Inr v
                  \<and> calculate_confidence_score p numbers c' = Inr v' \<and> v < v'" if "c < c'"
    using that by (simp add: f)
  have bound: "\<exists>v. calculate_confidence_score p numbers c = Inr v \<and> 0 \<le> v \<and> v \<le> 100"
    if "0 \<le> sum_list scores / 6 \<and> sum_list scores / 6 \<le> 1 \<and> 0 \<le> c \<and> c \<le> 1"
  proof -
    let ?m = "sum_list scores / 6"
    have "0 \<le> 100 * (0.6 * ?m + 0.4 * c)" using that by simp
    moreover have "100 * (0.6 * ?m + 0.4 * c) \<le> 100" using that by simp
    ultimately show ?thesis by (simp only: f) blast
  qed
  show ?thesis using f [of c] len nth mono bound by blast
qed

text \<open>
  Witness for C8: the candidate 1..6 with per-number scores 59/200 each and its own
  combination score 2307/7000; the confidence is 10809/350, about 30.9.
\<close>

theorem confidence_score_formula_witness:
  "calculate_confidence_score predictor0 [1, 2, 3, 4, 5, 6] (2307 / 7000) = Inr (10809 / 350)"
proof -
  have i: "individual_scores predictor0 [1, 2, 3, 4, 5, 6]
      = Inr [59 / 200, 59 / 200, 59 / 200, 59 / 200, 59 / 200, 59 / 200]"
    by (simp add: predictor0_score)
  have l: "length [1, 2, 3, 4, 5, 6 :: int] = 6" by simp
  from confidence_score_formula [OF i l, of "2307 / 7000"] show ?thesis by simp
qed

text \<open>
  Counterexample to C8 as stated: after the single draw 1..6 each of these numbers has
  appeared once where 6/49 appearances are expected, so its appearance sub-score is
  1 - (43/49)/(6/49) = -37/6 and its score with the default weights -163/300. The
  candidate 1..6 with its own combination score 2307/7000 gets the confidence -3398/175,
  about -19.4, below 0.
\<close>

theorem confidence_score_negative_counterexample:
  "calculate_combination_score [1, 2, 3, 4, 5, 6] = Inr (2307 / 7000)
   \<and> calculate_number_score predictor1 1 = Inr (- 163 / 300)
   \<and> calculate_confidence_score predictor1 [1, 2, 3, 4, 5, 6] (2307 / 7000) = Inr (- 3398 / 175)"
proof -
  have sq: "int_sqrt 1 = 1" "int_sqrt 2 = 1" "int_sqrt 3 = 1" "int_sqrt 4 = 2" "int_sqrt 5 = 2" "int_sqrt 6 = 2"
    by (simp_all add: int_sqrt_def eval_nat_numeral)
  have a: "calculate_combination_score [1, 2, 3, 4, 5, 6] = Inr (2307 / 7000)"
    by (simp add: calculate_combination_score_def Let_def interval_counts_def interval_points_def
        consecutive_in_row_def is_prime_def is_square_def sq upt_conv_Cons upto.simps)
  have ns: "calculate_number_score predictor1 n = Inr (- 163 / 300)" if "n \<in> {1, 2, 3, 4, 5, 6}" for n
    using that
    by (auto simp add: calculate_number_score_def predictor1_def one_draw_features_def default_weights_def
        expected_appearances_def appearance_score_def recent_score_def interval_score_def
        hot_cold_score_def periodicity_score_def trend_score_def ma_score_def attraction_score_def
        distribution_score_def adjacent_score_def interval_name_def get_or_def Let_def
        map_of_get_missing_intervals missing_interval_def draw1_def row_values_def)
  have "calculate_confidence_score predictor1 [1, 2, 3, 4, 5, 6] (2307 / 7000) = Inr (- 3398 / 175)"
    by (simp add: calculate_confidence_score_def np_mean_def ns Let_def)
  with a ns show ?thesis by simp
qed

end
